theory Spec2Isabelle
  imports Complex_Main "HOL-Library.Word"
begin

unbundle bit_operations_syntax

section \<open>Numbers, samples and typed arrays\<close>

text \<open>
  The voice service of \<^verbatim>\<open>useVoiceService.js\<close> works on three kinds of numbers.
  Audio samples and sample rates are JavaScript numbers, IEEE doubles. A finite double
  is a rational, so samples and rates are rationals; a \<open>number\<close> adds the three values
  that are not: the two infinities and NaN. Zero has no sign in the model. Every
  arithmetic operation of the resamplers rounds its exact result to the nearest double,
  ties to even, and a store into a \<^verbatim>\<open>Float32Array\<close> rounds to the nearest 32-bit float.
  The quantizer's product of a 32-bit float and 32767 is exact in a double and is not
  rounded. Wire samples are the elements of an \<^verbatim>\<open>Int16Array\<close>, modelled as 16-bit words
  read with \<open>sint\<close>. Bytes are 8-bit words.
\<close>

type_synonym sample = rat
type_synonym int16 = "16 word"
type_synonym byte = "8 word"

datatype number = Fin rat | PosInfinity | NegInfinity | NaN

subsection \<open>Rounding to a binary format\<close>

text \<open>
  \<open>log2i n\<close> is \<open>\<lfloor>log\<^sub>2 n\<rfloor>\<close> for an integer \<open>n \<ge> 1\<close>, and \<open>ilog2 x\<close> is \<open>\<lfloor>log\<^sub>2 x\<rfloor>\<close> for
  a rational \<open>x > 0\<close>: the exponent of \<open>x\<close>.
\<close>

function log2i :: "int \<Rightarrow> int" where
  "log2i n = (if n < 2 then 0 else 1 + log2i (n div 2))"
  by pat_completeness auto
termination
  by (relation "measure nat") auto

declare log2i.simps [simp del]

definition pow2 :: "int \<Rightarrow> rat" where
  "pow2 e = (if 0 \<le> e then 2 ^ nat e else 1 / 2 ^ nat (- e))"

definition ilog2 :: "rat \<Rightarrow> int" where
  "ilog2 x = (if 1 \<le> x then log2i \<lfloor>x\<rfloor> else - log2i (\<lceil>1 / x\<rceil> - 1) - 1)"

text \<open>The nearest integer, a tie going to the even one.\<close>

definition round_even :: "rat \<Rightarrow> int" where
  "round_even x =
     (let f = \<lfloor>x\<rfloor>; d = x - of_int f
      in if d < 1 / 2 then f else if 1 / 2 < d then f + 1
         else if even f then f else f + 1)"

text \<open>
  \<open>binary_round p emin x\<close> is the multiple of the unit in the last place nearest to \<open>x\<close>,
  for a significand of \<open>p\<close> bits; below \<open>2 ^ emin\<close> the unit stays that of the
  subnormal numbers. A result of \<open>2 ^ (emax + 1)\<close> or more is an infinity: binary64 has
  \<open>p = 53\<close>, \<open>emin = - 1022\<close> and \<open>emax = 1023\<close>, binary32 has \<open>p = 24\<close>, \<open>emin = - 126\<close>
  and \<open>emax = 127\<close>.
\<close>

definition binary_round :: "nat \<Rightarrow> int \<Rightarrow> rat \<Rightarrow> rat" where
  "binary_round p emin x =
     (if x = 0 then 0
      else
        let e = max (ilog2 \<bar>x\<bar>) emin;
            q = pow2 (e - int p + 1)
        in sgn x * of_int (round_even (\<bar>x\<bar> / q)) * q)"

definition fl64 :: "rat \<Rightarrow> number" where
  "fl64 x =
     (let y = binary_round 53 (- 1022) x
      in if pow2 1024 \<le> y then PosInfinity
         else if y \<le> - pow2 1024 then NegInfinity
         else Fin y)"

text \<open>The value stored by an assignment to an element of a \<^verbatim>\<open>Float32Array\<close>.\<close>

fun fround :: "number \<Rightarrow> number" where
  "fround (Fin x) =
     (let y = binary_round 24 (- 126) x
      in if pow2 128 \<le> y then PosInfinity
         else if y \<le> - pow2 128 then NegInfinity
         else Fin y)"
| "fround v = v"

subsection \<open>Arithmetic on numbers\<close>

fun js_neg :: "number \<Rightarrow> number" where
  "js_neg (Fin x) = Fin (- x)"
| "js_neg PosInfinity = NegInfinity"
| "js_neg NegInfinity = PosInfinity"
| "js_neg NaN = NaN"

fun js_plus :: "number \<Rightarrow> number \<Rightarrow> number" where
  "js_plus (Fin x) (Fin y) = fl64 (x + y)"
| "js_plus NaN b = NaN"
| "js_plus a NaN = NaN"
| "js_plus PosInfinity NegInfinity = NaN"
| "js_plus NegInfinity PosInfinity = NaN"
| "js_plus PosInfinity b = PosInfinity"
| "js_plus NegInfinity b = NegInfinity"
| "js_plus a PosInfinity = PosInfinity"
| "js_plus a NegInfinity = NegInfinity"

definition js_minus :: "number \<Rightarrow> number \<Rightarrow> number" where
  "js_minus a b = js_plus a (js_neg b)"

text \<open>The infinity with the sign of \<open>x\<close>; NaN for \<open>x = 0\<close>.\<close>

definition signed_infinity :: "rat \<Rightarrow> number" where
  "signed_infinity x = (if x = 0 then NaN else if 0 < x then PosInfinity else NegInfinity)"

fun js_times :: "number \<Rightarrow> number \<Rightarrow> number" where
  "js_times (Fin x) (Fin y) = fl64 (x * y)"
| "js_times NaN b = NaN"
| "js_times a NaN = NaN"
| "js_times (Fin x) PosInfinity = signed_infinity x"
| "js_times (Fin x) NegInfinity = signed_infinity (- x)"
| "js_times PosInfinity (Fin y) = signed_infinity y"
| "js_times NegInfinity (Fin y) = signed_infinity (- y)"
| "js_times PosInfinity PosInfinity = PosInfinity"
| "js_times NegInfinity NegInfinity = PosInfinity"
| "js_times PosInfinity NegInfinity = NegInfinity"
| "js_times NegInfinity PosInfinity = NegInfinity"

text \<open>Division; a zero divisor counts as \<open>+0\<close>.\<close>

fun js_divide :: "number \<Rightarrow> number \<Rightarrow> number" where
  "js_divide (Fin x) (Fin y) = (if y = 0 then signed_infinity x else fl64 (x / y))"
| "js_divide NaN b = NaN"
| "js_divide a NaN = NaN"
| "js_divide (Fin x) b = Fin 0"
| "js_divide PosInfinity (Fin y) = (if 0 \<le> y then PosInfinity else NegInfinity)"
| "js_divide NegInfinity (Fin y) = (if 0 \<le> y then NegInfinity else PosInfinity)"
| "js_divide a b = NaN"

text \<open>
  \<^verbatim>\<open>Math.floor\<close> and \<^verbatim>\<open>Math.ceil\<close> are exact; \<^verbatim>\<open>Math.round\<close> is the nearest integer with
  a tie going up, which is \<open>\<lfloor>x + 1/2\<rfloor>\<close> computed exactly.
\<close>

fun Math_floor :: "number \<Rightarrow> number" where
  "Math_floor (Fin x) = Fin (of_int \<lfloor>x\<rfloor>)"
| "Math_floor v = v"

fun Math_ceil :: "number \<Rightarrow> number" where
  "Math_ceil (Fin x) = Fin (of_int \<lceil>x\<rceil>)"
| "Math_ceil v = v"

fun Math_round :: "number \<Rightarrow> number" where
  "Math_round (Fin x) = Fin (of_int \<lfloor>x + 1 / 2\<rfloor>)"
| "Math_round v = v"

subsection \<open>Typed arrays\<close>

text \<open>
  Reading a typed array at a number that is not one of its indices yields
  \<^verbatim>\<open>undefined\<close>. The source always reads through \<^verbatim>\<open>a[i] || d\<close>, which replaces every
  falsy value by \<open>d\<close>: \<^verbatim>\<open>undefined\<close>, and also the sample \<open>0\<close>.
\<close>

fun js_index :: "'a list \<Rightarrow> number \<Rightarrow> 'a option" where
  "js_index xs (Fin x) =
     (if of_int \<lfloor>x\<rfloor> = x \<and> 0 \<le> x \<and> nat \<lfloor>x\<rfloor> < length xs then Some (xs ! nat \<lfloor>x\<rfloor>)
      else None)"
| "js_index xs v = None"

definition js_or :: "sample option \<Rightarrow> sample \<Rightarrow> sample" where
  "js_or v d = (case v of None \<Rightarrow> d | Some x \<Rightarrow> if x = 0 then d else x)"

text \<open>
  \<^verbatim>\<open>new Float32Array(n)\<close> converts \<open>n\<close> with ToIndex: NaN is length 0, the fraction is cut
  off, and a negative or infinite length or one above \<open>2\<^sup>5\<^sup>3 - 1\<close> raises a
  \<^verbatim>\<open>RangeError\<close>, here \<open>None\<close>. A browser also refuses a length beyond the memory it
  grants; the model has no such limit.
\<close>

fun ToIndex :: "number \<Rightarrow> nat option" where
  "ToIndex NaN = Some 0"
| "ToIndex (Fin x) =
     (let k = (if 0 \<le> x then \<lfloor>x\<rfloor> else \<lceil>x\<rceil>)
      in if k < 0 \<or> 2 ^ 53 - 1 < k then None else Some (nat k))"
| "ToIndex v = None"

text \<open>
  What a resampler does: it returns a buffer, or the allocation raises a
  \<^verbatim>\<open>RangeError\<close>, or the buffer it returns holds a sample that is NaN or infinite and
  has no place among the rational samples.
\<close>

datatype 'a outcome = Returns 'a | RangeError | NonFiniteSamples

fun finite_samples :: "number list \<Rightarrow> sample list option" where
  "finite_samples [] = Some []"
| "finite_samples (Fin x # vs) = map_option (\<lambda>xs. x # xs) (finite_samples vs)"
| "finite_samples (v # vs) = None"

definition Float32Array_of :: "number list \<Rightarrow> sample list outcome" where
  "Float32Array_of vs =
     (case finite_samples vs of None \<Rightarrow> NonFiniteSamples | Some xs \<Rightarrow> Returns xs)"

text \<open>
  Storing a number into an \<^verbatim>\<open>Int16Array\<close> applies the conversion ToInt16: the fraction is
  cut off towards zero and the integer is reduced modulo \<open>2 ^ 16\<close> into the signed range.
\<close>

definition trunc :: "rat \<Rightarrow> int" where
  "trunc x = (if 0 \<le> x then \<lfloor>x\<rfloor> else \<lceil>x\<rceil>)"

definition ToInt16 :: "rat \<Rightarrow> int16" where
  "ToInt16 x = word_of_int (trunc x)"

section \<open>The capture worklet: ResamplerProcessor\<close>

text \<open>
  \<^verbatim>\<open>float32ToInt16\<close> walks the buffer from its last index down to 0 and stores
  \<^verbatim>\<open>Math.min(1, buffer[l]) * 0x7FFF\<close> into a fresh \<^verbatim>\<open>Int16Array\<close>.
\<close>

definition quantize :: "sample \<Rightarrow> int16" where
  "quantize x = ToInt16 (min 1 x * 32767)"

fun float32ToInt16_loop :: "nat \<Rightarrow> sample list \<Rightarrow> int16 list \<Rightarrow> int16 list" where
  "float32ToInt16_loop 0 buffer buf = buf"
| "float32ToInt16_loop (Suc l) buffer buf =
     float32ToInt16_loop l buffer (buf[l := quantize (buffer ! l)])"

definition float32ToInt16 :: "sample list \<Rightarrow> int16 list" where
  "float32ToInt16 buffer =
     float32ToInt16_loop (length buffer) buffer (replicate (length buffer) 0)"

text \<open>
  \<^verbatim>\<open>resample\<close> returns its argument when the two rates are equal. Otherwise it divides
  the rates, allocates \<^verbatim>\<open>Math.round(audioBuffer.length * ratio)\<close> slots and fills them.
\<close>

definition resample_at :: "sample list \<Rightarrow> number \<Rightarrow> nat \<Rightarrow> number" where
  "resample_at audioBuffer ratio i =
     (let pos = js_divide (Fin (of_nat i)) ratio;
          low = Math_floor pos;
          high = Math_ceil pos;
          lv = js_or (js_index audioBuffer low) 0;
          hv = js_or (js_index audioBuffer high) 0
      in fround (js_plus (Fin lv) (js_times (js_minus (Fin hv) (Fin lv)) (js_minus pos low))))"

definition resample :: "sample list \<Rightarrow> rat \<Rightarrow> rat \<Rightarrow> sample list outcome" where
  "resample audioBuffer fromSampleRate toSampleRate =
     (if fromSampleRate = toSampleRate then Returns audioBuffer
      else
        let ratio = js_divide (Fin toSampleRate) (Fin fromSampleRate);
            newLength = Math_round (js_times (Fin (of_nat (length audioBuffer))) ratio)
        in case ToIndex newLength of
             None \<Rightarrow> RangeError
           | Some n \<Rightarrow> Float32Array_of (map (resample_at audioBuffer ratio) [0..<n]))"

section \<open>The playback worklet: PCMPlayer\<close>

text \<open>
  The chunk handler turns every 16-bit sample into
  \<^verbatim>\<open>Math.max(-1, Math.min(1, i16[i] / 32768))\<close>.
\<close>

definition dequantize :: "int16 \<Rightarrow> sample" where
  "dequantize q = max (- 1) (min 1 (of_int (sint q) / 32768))"

text \<open>
  \<^verbatim>\<open>resampleLinear\<close> fills \<^verbatim>\<open>Math.floor(input.length * ratio)\<close> slots and reads the
  upper neighbour as \<^verbatim>\<open>input[idx + 1] || s0\<close>.
\<close>

definition resampleLinear_at :: "sample list \<Rightarrow> number \<Rightarrow> nat \<Rightarrow> number" where
  "resampleLinear_at input ratio i =
     (let pos = js_divide (Fin (of_nat i)) ratio;
          idx = Math_floor pos;
          frac = js_minus pos idx;
          s0 = js_or (js_index input idx) 0;
          s1 = js_or (js_index input (js_plus idx (Fin 1))) s0
      in fround (js_plus (Fin s0) (js_times (js_minus (Fin s1) (Fin s0)) frac)))"

definition resampleLinear :: "sample list \<Rightarrow> rat \<Rightarrow> rat \<Rightarrow> sample list outcome" where
  "resampleLinear input from to =
     (if from = to then Returns input
      else
        let ratio = js_divide (Fin to) (Fin from);
            outLen = Math_floor (js_times (Fin (of_nat (length input))) ratio)
        in case ToIndex outLen of
             None \<Rightarrow> RangeError
           | Some n \<Rightarrow> Float32Array_of (map (resampleLinear_at input ratio) [0..<n]))"

text \<open>
  The processor's \<^verbatim>\<open>process\<close> callback resamples one input block to the target rate,
  quantizes it and posts the bytes of the \<^verbatim>\<open>Int16Array\<close> to the control context. The
  \<^verbatim>\<open>ArrayBuffer\<close> holds every sample as two bytes, low byte first.
\<close>

definition int16_bytes :: "int16 \<Rightarrow> byte list" where
  "int16_bytes w = [ucast w, ucast (drop_bit 8 w)]"

definition arrayBuffer :: "int16 list \<Rightarrow> byte list" where
  "arrayBuffer ws = concat (map int16_bytes ws)"

definition ResamplerProcessor_process :: "rat \<Rightarrow> rat \<Rightarrow> sample list \<Rightarrow> byte list outcome" where
  "ResamplerProcessor_process sampleRate targetSampleRate input =
     (case resample input sampleRate targetSampleRate of
        Returns resampled \<Rightarrow> Returns (arrayBuffer (float32ToInt16 resampled))
      | RangeError \<Rightarrow> RangeError
      | NonFiniteSamples \<Rightarrow> NonFiniteSamples)"

section \<open>The platform's base64 functions\<close>

text \<open>
  \<^verbatim>\<open>btoa\<close> and \<^verbatim>\<open>atob\<close> belong to the browser, not to the repository. They are
  modelled after the HTML standard: \<^verbatim>\<open>btoa\<close> is RFC 4648 base64 with padding, and
  \<^verbatim>\<open>atob\<close> is the forgiving decoder, which drops ASCII whitespace, removes one or two
  trailing \<open>=\<close> from a text whose length is a multiple of four, and fails (here:
  \<open>None\<close>, in the browser an \<^verbatim>\<open>InvalidCharacterError\<close>) on a length of \<open>4k + 1\<close> or on
  a character outside the alphabet. A binary string is a list of bytes.
\<close>

definition b64chars :: string where
  "b64chars = ''ABCDEFGHIJKLMNOPQRSTUVWXYZabcdefghijklmnopqrstuvwxyz0123456789+/''"

fun sextets :: "byte list \<Rightarrow> nat list" where
  "sextets [] = []"
| "sextets [a] = [unat a div 4, unat a mod 4 * 16]"
| "sextets [a, b] = [unat a div 4, unat a mod 4 * 16 + unat b div 16, unat b mod 16 * 4]"
| "sextets (a # b # c # rest) =
     [unat a div 4, unat a mod 4 * 16 + unat b div 16,
      unat b mod 16 * 4 + unat c div 64, unat c mod 64] @ sextets rest"

definition btoa :: "byte list \<Rightarrow> string" where
  "btoa bin =
     map (\<lambda>i. b64chars ! i) (sextets bin) @
     replicate ((3 - length bin mod 3) mod 3) (CHR ''='')"

fun position :: "'a \<Rightarrow> 'a list \<Rightarrow> nat option" where
  "position c [] = None"
| "position c (x # xs) = (if x = c then Some 0 else map_option Suc (position c xs))"

definition b64index :: "char \<Rightarrow> nat option" where
  "b64index c = position c b64chars"

definition ascii_whitespace :: "char \<Rightarrow> bool" where
  "ascii_whitespace c \<longleftrightarrow> c \<in> set [CHR 0x09, CHR 0x0A, CHR 0x0C, CHR 0x0D, CHR 0x20]"

definition strip_padding :: "string \<Rightarrow> string" where
  "strip_padding d =
     (if length d mod 4 = 0 then
        (if 2 \<le> length d \<and> drop (length d - 2) d = ''=='' then take (length d - 2) d
         else if 1 \<le> length d \<and> drop (length d - 1) d = ''='' then take (length d - 1) d
         else d)
      else d)"

fun octets :: "nat list \<Rightarrow> byte list" where
  "octets (s1 # s2 # s3 # s4 # rest) =
     [of_nat (s1 * 4 + s2 div 16), of_nat (s2 mod 16 * 16 + s3 div 4),
      of_nat (s3 mod 4 * 64 + s4)] @ octets rest"
| "octets [s1, s2, s3] = [of_nat (s1 * 4 + s2 div 16), of_nat (s2 mod 16 * 16 + s3 div 4)]"
| "octets [s1, s2] = [of_nat (s1 * 4 + s2 div 16)]"
| "octets _ = []"

definition atob :: "string \<Rightarrow> byte list option" where
  "atob data =
     (let d = strip_padding (filter (\<lambda>c. \<not> ascii_whitespace c) data)
      in if length d mod 4 = 1 then None
         else map_option octets (those (map b64index d)))"

text \<open>
  The decoding loop of \<^verbatim>\<open>pushTtsChunkBase64\<close> reads the binary string two characters at
  a time and stores \<^verbatim>\<open>(hi << 8) | lo\<close> into an \<^verbatim>\<open>Int16Array\<close> of \<open>len / 2\<close> elements.
  With an odd length the last store falls outside the array and is ignored.
\<close>

fun int16_of_binary :: "byte list \<Rightarrow> int16 list" where
  "int16_of_binary (lo # hi # rest) =
     word_of_int (push_bit 8 (uint hi) OR uint lo) # int16_of_binary rest"
| "int16_of_binary _ = []"

section \<open>The playback worklet's state\<close>

text \<open>
  A \<^verbatim>\<open>PCMPlayer\<close> holds its input rate, the FIFO of samples waiting to be played and
  the end marker. Its port receives chunks and the end signal; its \<^verbatim>\<open>process\<close> callback
  fills one output block of \<open>n\<close> samples and may post \<^verbatim>\<open>{type: 'ended'}\<close> back.
\<close>

record PCMPlayer =
  inputRate :: rat
  buffer :: "sample list"
  ended :: bool

datatype player_msg = Chunk "int16 list" | End | NoType

definition PCMPlayer_new :: "rat option \<Rightarrow> PCMPlayer" where
  "PCMPlayer_new inputSampleRate =
     \<lparr>inputRate = (case inputSampleRate of None \<Rightarrow> 24000 | Some r \<Rightarrow> if r = 0 then 24000 else r),
      buffer = [], ended = False\<rparr>"

definition enqueue :: "sample list \<Rightarrow> PCMPlayer \<Rightarrow> PCMPlayer" where
  "enqueue f32 p = p\<lparr>buffer := buffer p @ f32\<rparr>"

text \<open>
  The port handler. \<open>sampleRate\<close> is the global of the audio worklet scope, the device
  rate. Where \<^verbatim>\<open>resampleLinear\<close> raises, the handler has thrown and the player is as it
  was. A buffer with a NaN or infinite sample cannot enter the rational FIFO; the model
  then leaves the player as it was, too.
\<close>

definition PCMPlayer_onmessage :: "rat \<Rightarrow> player_msg \<Rightarrow> PCMPlayer \<Rightarrow> PCMPlayer" where
  "PCMPlayer_onmessage sampleRate msg p =
     (case msg of
        Chunk i16 \<Rightarrow>
          (case resampleLinear (map dequantize i16) (inputRate p) sampleRate of
             Returns res \<Rightarrow> enqueue res p
           | RangeError \<Rightarrow> p
           | NonFiniteSamples \<Rightarrow> p)
      | End \<Rightarrow> p\<lparr>ended := True\<rparr>
      | NoType \<Rightarrow> p)"

text \<open>
  \<^verbatim>\<open>process\<close> returns the output block, whether \<^verbatim>\<open>{type: 'ended'}\<close> was posted, and the
  player afterwards.
\<close>

definition process :: "nat \<Rightarrow> PCMPlayer \<Rightarrow> sample list \<times> bool \<times> PCMPlayer" where
  "process n p =
     (if n \<le> length (buffer p) then
        (take n (buffer p), False, p\<lparr>buffer := drop n (buffer p)\<rparr>)
      else
        (buffer p @ replicate (n - length (buffer p)) 0, ended p,
         p\<lparr>buffer := [], ended := False\<rparr>))"

text \<open>
  The audio context interleaves port messages and render callbacks. A run collects, for
  every event in order, whether the event posted \<^verbatim>\<open>{type: 'ended'}\<close>.
\<close>

datatype player_event = Message player_msg | Render nat

fun PCMPlayer_run :: "rat \<Rightarrow> PCMPlayer \<Rightarrow> player_event list \<Rightarrow> bool list \<times> PCMPlayer" where
  "PCMPlayer_run sampleRate p [] = ([], p)"
| "PCMPlayer_run sampleRate p (Message msg # evs) =
     (let (posts, p') = PCMPlayer_run sampleRate (PCMPlayer_onmessage sampleRate msg p) evs
      in (False # posts, p'))"
| "PCMPlayer_run sampleRate p (Render n # evs) =
     (let (out, posted, p1) = process n p;
          (posts, p') = PCMPlayer_run sampleRate p1 evs
      in (posted # posts, p'))"

section \<open>The session controller\<close>

text \<open>
  The closure variables of \<^verbatim>\<open>useVoiceService\<close> form the session state. An object
  reference that the code only tests for presence is a flag; the socket is its
  \<^verbatim>\<open>readyState\<close>, or \<open>None\<close> for \<^verbatim>\<open>null\<close>; the media stream carries whether it is active
  and whether its tracks are enabled; the playback node carries the messages posted to
  its port, oldest first. \<open>effects\<close> records, in order, the calls that leave the
  controller: frames sent on the socket and resources released.
\<close>

datatype status = Idle | Connecting | Listening | Processing | Speaking

datatype readyState = CONNECTING | OPEN | CLOSING | CLOSED

datatype effect =
  SocketSend string
  | SocketClose
  | TrackStop
  | SourceDisconnect
  | CaptureDisconnect
  | PlaybackDisconnect
  | Alert

record MediaStream =
  active :: bool
  enabled :: bool

record session =
  status :: status
  finalAnswer :: string
  userAnalyser :: bool
  aiAnalyser :: bool
  socket :: "readyState option"
  audioContext :: bool
  userSourceNode :: bool
  userWorkletNode :: bool
  mediaStream :: "MediaStream option"
  ttsWorkletNode :: "player_msg list option"
  sttLocked :: bool
  ttsPlaying :: bool
  effects :: "effect list"

definition initial :: session where
  "initial =
     \<lparr>status = Idle, finalAnswer = [], userAnalyser = False, aiAnalyser = False,
      socket = None, audioContext = False, userSourceNode = False,
      userWorkletNode = False, mediaStream = None, ttsWorkletNode = None,
      sttLocked = False, ttsPlaying = False, effects = []\<rparr>"

text \<open>The test \<^verbatim>\<open>socket && socket.readyState === WebSocket.OPEN\<close>.\<close>

definition socket_open :: "session \<Rightarrow> bool" where
  "socket_open s = (case socket s of None \<Rightarrow> False | Some r \<Rightarrow> r = OPEN)"

definition stopListening :: "session \<Rightarrow> session" where
  "stopListening s =
     (case mediaStream s of
        None \<Rightarrow> s
      | Some m \<Rightarrow> s\<lparr>mediaStream := Some (m\<lparr>enabled := False\<rparr>)\<rparr>)"

definition stopSession :: "session \<Rightarrow> session" where
  "stopSession s =
     (if status s = Idle then s
      else
        let s1 = stopListening s;
            s2 = (case socket s1 of
                    None \<Rightarrow> s1
                  | Some r \<Rightarrow> s1\<lparr>socket := None, effects := effects s1 @ [SocketClose]\<rparr>);
            s3 = (case mediaStream s2 of
                    None \<Rightarrow> s2
                  | Some m \<Rightarrow> s2\<lparr>mediaStream := None, effects := effects s2 @ [TrackStop]\<rparr>);
            s4 = (if userSourceNode s3
                  then s3\<lparr>userSourceNode := False, effects := effects s3 @ [SourceDisconnect]\<rparr>
                  else s3);
            s5 = (if userWorkletNode s4
                  then s4\<lparr>userWorkletNode := False, effects := effects s4 @ [CaptureDisconnect]\<rparr>
                  else s4);
            s6 = (case ttsWorkletNode s5 of
                    None \<Rightarrow> s5
                  | Some port \<Rightarrow>
                      s5\<lparr>ttsWorkletNode := None, effects := effects s5 @ [PlaybackDisconnect]\<rparr>)
        in s6\<lparr>sttLocked := False, ttsPlaying := False, status := Idle,
              userAnalyser := False, aiAnalyser := False\<rparr>)"

text \<open>
  \<^verbatim>\<open>startListening\<close> is asynchronous; the model runs it in one step. \<open>granted\<close> is the
  outcome of \<^verbatim>\<open>getUserMedia\<close>: when the stream has to be acquired and the request is
  rejected, the \<^verbatim>\<open>catch\<close> block alerts the user and stops the session.
\<close>

definition startListening :: "bool \<Rightarrow> session \<Rightarrow> session" where
  "startListening granted s =
     (if sttLocked s \<or> socket s = None \<or> socket s \<noteq> Some OPEN then s
      else
        let s1 = s\<lparr>status := Listening, finalAnswer := []\<rparr>
        in if (case mediaStream s1 of None \<Rightarrow> True | Some m \<Rightarrow> \<not> active m) then
             (if granted then
                s1\<lparr>mediaStream := Some \<lparr>active = True, enabled = True\<rparr>,
                   userSourceNode := True, userAnalyser := True, userWorkletNode := True\<rparr>
              else stopSession (s1\<lparr>effects := effects s1 @ [Alert]\<rparr>))
           else s1\<lparr>mediaStream := map_option (\<lambda>m. m\<lparr>enabled := True\<rparr>) (mediaStream s1)\<rparr>)"

text \<open>
  The handler of the capture node's port: one frame of bytes from the capture worklet.
\<close>

definition userWorkletNode_onmessage :: "byte list \<Rightarrow> session \<Rightarrow> session" where
  "userWorkletNode_onmessage data s =
     (if sttLocked s \<or> socket s = None \<or> socket s \<noteq> Some OPEN then s
      else s\<lparr>effects := effects s @ [SocketSend (btoa data)]\<rparr>)"

definition initTtsPlayer :: "session \<Rightarrow> session" where
  "initTtsPlayer s =
     (case ttsWorkletNode s of
        None \<Rightarrow> s\<lparr>ttsWorkletNode := Some [], aiAnalyser := True\<rparr>
      | Some port \<Rightarrow> s)"

text \<open>
  \<^verbatim>\<open>pushTtsChunkBase64\<close> has no result where \<^verbatim>\<open>atob\<close> throws; the exception leaves the
  handler that called it.
\<close>

definition pushTtsChunkBase64 :: "string \<Rightarrow> session \<Rightarrow> session option" where
  "pushTtsChunkBase64 b64 s =
     (case ttsWorkletNode s of
        None \<Rightarrow> Some s
      | Some port \<Rightarrow>
          (case atob b64 of
             None \<Rightarrow> None
           | Some bin \<Rightarrow>
               let s1 = s\<lparr>ttsWorkletNode := Some (port @ [Chunk (int16_of_binary bin)])\<rparr>
               in Some (if \<not> ttsPlaying s1
                        then s1\<lparr>status := Speaking, ttsPlaying := True\<rparr>
                        else s1)))"

definition endTtsStream :: "session \<Rightarrow> session" where
  "endTtsStream s =
     (case ttsWorkletNode s of
        None \<Rightarrow> s
      | Some port \<Rightarrow> s\<lparr>ttsWorkletNode := Some (port @ [End])\<rparr>)"

text \<open>
  The inbound control messages, by their \<^verbatim>\<open>type\<close>; \<open>Unknown\<close> is any other type, which no
  \<^verbatim>\<open>case\<close> of the \<^verbatim>\<open>switch\<close> matches.
\<close>

datatype message =
  SttEnd
  | FinalAnswer string
  | TtsChunk string
  | TtsEnd
  | Error string
  | Unknown

definition socket_onmessage :: "message \<Rightarrow> session \<Rightarrow> session" where
  "socket_onmessage msg s =
     (case msg of
        SttEnd \<Rightarrow> (stopListening s)\<lparr>sttLocked := True, status := Processing\<rparr>
      | FinalAnswer d \<Rightarrow>
          (initTtsPlayer (s\<lparr>finalAnswer := d, status := Processing\<rparr>))\<lparr>sttLocked := True\<rparr>
      | TtsChunk d \<Rightarrow>
          (let s1 = (if \<not> sttLocked s then stopListening (s\<lparr>sttLocked := True\<rparr>) else s);
               s2 = (if ttsWorkletNode s1 = None then initTtsPlayer s1 else s1)
           in case pushTtsChunkBase64 d s2 of None \<Rightarrow> s2 | Some s3 \<Rightarrow> s3)
      | TtsEnd \<Rightarrow> endTtsStream s
      | Error m \<Rightarrow> stopSession s
      | Unknown \<Rightarrow> s)"

definition socket_onopen :: "bool \<Rightarrow> session \<Rightarrow> session" where
  "socket_onopen granted s = startListening granted s"

definition socket_onerror :: "session \<Rightarrow> session" where
  "socket_onerror s = stopSession s"

definition socket_onclose :: "session \<Rightarrow> session" where
  "socket_onclose s = s\<lparr>status := Idle\<rparr>"

text \<open>The handler of the playback node's port, on \<^verbatim>\<open>{type: 'ended'}\<close>.\<close>

definition ttsWorkletNode_onmessage :: "bool \<Rightarrow> session \<Rightarrow> session" where
  "ttsWorkletNode_onmessage granted s =
     (let s1 = s\<lparr>ttsPlaying := False, sttLocked := False\<rparr>
      in if socket_open s1 then startListening granted s1 else stopSession s1)"

definition setupWebSocket :: "session \<Rightarrow> session" where
  "setupWebSocket s = s\<lparr>socket := Some CONNECTING\<rparr>"

definition startSession :: "session \<Rightarrow> session" where
  "startSession s =
     (if status s \<noteq> Idle then s
      else setupWebSocket (s\<lparr>status := Connecting, audioContext := True\<rparr>))"

definition toggleSession :: "session \<Rightarrow> session" where
  "toggleSession s = (if status s = Idle then startSession s else stopSession s)"

definition onUnmounted :: "session \<Rightarrow> session" where
  "onUnmounted s = (stopSession s)\<lparr>audioContext := False\<rparr>"

text \<open>
  One step of the controller is one handler run to its end. Connection events concern
  the connection that \<open>socket\<close> holds: the browser moves its \<^verbatim>\<open>readyState\<close> before it
  calls the handler, delivers \<^verbatim>\<open>open\<close> only to a connecting socket and messages only to
  an open one. A connection that \<^verbatim>\<open>stopSession\<close> has dropped still reports its
  \<^verbatim>\<open>close\<close>; then \<open>socket\<close> is \<open>None\<close> and only the handler body runs.
\<close>

datatype event =
  Toggle
  | WsOpen bool
  | WsMessage message
  | WsError
  | WsClose
  | PlaybackEnded bool
  | CaptureFrame "byte list"

definition step :: "event \<Rightarrow> session \<Rightarrow> session" where
  "step ev s =
     (case ev of
        Toggle \<Rightarrow> toggleSession s
      | WsOpen granted \<Rightarrow>
          (if socket s = Some CONNECTING then socket_onopen granted (s\<lparr>socket := Some OPEN\<rparr>)
           else s)
      | WsMessage msg \<Rightarrow> (if socket_open s then socket_onmessage msg s else s)
      | WsError \<Rightarrow> socket_onerror s
      | WsClose \<Rightarrow> socket_onclose (s\<lparr>socket := map_option (\<lambda>r. CLOSED) (socket s)\<rparr>)
      | PlaybackEnded granted \<Rightarrow> ttsWorkletNode_onmessage granted s
      | CaptureFrame data \<Rightarrow> userWorkletNode_onmessage data s)"

fun run :: "event list \<Rightarrow> session \<Rightarrow> session" where
  "run [] s = s"
| "run (ev # evs) s = run evs (step ev s)"

section \<open>The resampler as the specification words it\<close>






text \<open>The clamp of the specification's quantizer.\<close>

definition clamp :: "rat \<Rightarrow> rat \<Rightarrow> rat \<Rightarrow> rat" where
  "clamp x lo hi = max lo (min hi x)"

section \<open>Properties of a session state\<close>

text \<open>
  The capture-lock invariant of the specification, and the stronger form that the
  handlers preserve: the playback flag is only set under the lock.
\<close>

definition lock_inv :: "session \<Rightarrow> bool" where
  "lock_inv s \<longleftrightarrow>
     (status s \<in> {Processing, Speaking} \<longrightarrow> sttLocked s) \<and>
     (status s \<in> {Idle, Listening} \<longrightarrow> \<not> sttLocked s)"

definition lock_inv_strong :: "session \<Rightarrow> bool" where
  "lock_inv_strong s \<longleftrightarrow> lock_inv s \<and> (ttsPlaying s \<longrightarrow> sttLocked s)"

text \<open>The frames a list of effects transmitted, oldest first.\<close>

fun sends :: "effect list \<Rightarrow> string list" where
  "sends [] = []"
| "sends (SocketSend b64 # es) = b64 # sends es"
| "sends (e # es) = sends es"

text \<open>What a teardown releases in a state: each resource that is held, once.\<close>

definition released :: "session \<Rightarrow> effect list" where
  "released s =
     (if socket s \<noteq> None then [SocketClose] else []) @
     (if mediaStream s \<noteq> None then [TrackStop] else []) @
     (if userSourceNode s then [SourceDisconnect] else []) @
     (if userWorkletNode s then [CaptureDisconnect] else []) @
     (if ttsWorkletNode s \<noteq> None then [PlaybackDisconnect] else [])"

section \<open>Evaluating floors of rational numerals\<close>

text \<open>
  The simplifier computes the floor and the ceiling of a quotient of numerals over the
  reals; these two rules let it do the same over the rationals.
\<close>

lemma floor_rat_numeral [simp]:
  "\<lfloor>numeral a / numeral b :: rat\<rfloor> = numeral a div numeral b"
  using floor_divide_of_int_eq [of "numeral a" "numeral b", where ?'a = rat] by simp

lemma ceiling_rat_numeral [simp]:
  "\<lceil>numeral a / numeral b :: rat\<rceil> = - (- numeral a div numeral b)"
  unfolding ceiling_def
  using floor_divide_of_int_eq [of "- numeral a" "numeral b", where ?'a = rat] by simp

lemma floor_rat_one_divide [simp]: "\<lfloor>1 / numeral b :: rat\<rfloor> = 1 div numeral b"
  using floor_divide_of_int_eq [of 1 "numeral b", where ?'a = rat] by simp

lemma ceiling_rat_one_divide [simp]: "\<lceil>1 / numeral b :: rat\<rceil> = - (- 1 div numeral b)"
  unfolding ceiling_def
  using floor_divide_of_int_eq [of "- 1" "numeral b", where ?'a = rat] by simp

text \<open>Rules that evaluate the rounding and the resamplers on numerals.\<close>

lemmas fl_eval = fl64_def binary_round_def ilog2_def pow2_def round_even_def log2i.simps Let_def

lemmas resample_eval = resample_at_def resampleLinear_at_def Float32Array_of_def
  js_minus_def js_or_def



lemma upt_14: "[0..<14] = [0, 1, 2, 3, 4, 5, 6, 7, 8, 9, 10, 11, 12, 13]"
  by (simp add: upt_rec)

section \<open>The two resamplers\<close>














lemma resampleLinear_double_length:
  "resampleLinear [1/2, 1/2, 1/2, 1/2, 1/2, 1/2, 1/2, 1/2, 1/2, 1/2, 1/2] 11 15 =
     Returns [1/2, 1/2, 1/2, 1/2, 1/2, 1/2, 1/2, 1/2, 1/2, 1/2, 1/2, 1/2, 1/2, 1/2]"
proof -
  have n: "ToIndex (Math_floor (js_times (Fin (of_nat (length ([1/2, 1/2, 1/2, 1/2, 1/2, 1/2, 1/2, 1/2, 1/2, 1/2, 1/2] :: rat list))))
      (js_divide (Fin 15) (Fin 11)))) = Some 14"
    by (simp add: fl_eval)
  show ?thesis
    unfolding resampleLinear_def Let_def n by (simp add: upt_14 resample_eval fl_eval)
qed




text \<open>
  The fallback \<^verbatim>\<open>input[idx + 1] || s0\<close> also replaces an upper neighbour that is in range
  and exactly 0: the second output sample below is \<open>1/2\<close>, not the interpolated \<open>1/4\<close>.
\<close>

lemma resampleLinear_zero_neighbour:
  "resampleLinear [1/2, 0, 1/4] 1 2 = Returns [1/2, 1/2, 0, 1/8, 1/4, 1/4]"
proof -
  have n: "ToIndex (Math_floor (js_times (Fin (of_nat (length [1/2, 0, 1/4 :: rat])))
      (js_divide (Fin 2) (Fin 1)))) = Some 6"
    by (simp add: fl_eval)
  show ?thesis
    unfolding resampleLinear_def Let_def n by (simp add: upt_rec resample_eval fl_eval)
qed

text \<open>
  A target rate of 0 gives an empty buffer; a source rate of 0 makes the ratio infinite
  and the allocation raise.
\<close>

lemma resample_rate_zero:
  "resample [1/2, 1/4] 48000 0 = Returns []"
  "resample [1/2, 1/4] 0 48000 = RangeError"
  by (simp_all add: resample_def Float32Array_of_def signed_infinity_def fl_eval)

section \<open>Quantization and dequantization\<close>

lemma trunc_same_sign:
  "0 \<le> x \<Longrightarrow> 0 \<le> x - of_int (trunc x) \<and> x - of_int (trunc x) < 1"
  "x \<le> 0 \<Longrightarrow> - 1 < x - of_int (trunc x) \<and> x - of_int (trunc x) \<le> 0"
  unfolding trunc_def by (auto; linarith)+

lemma trunc_of_int [simp]: "trunc (of_int k) = k"
  by (simp add: trunc_def)

lemma trunc_mono: "x \<le> y \<Longrightarrow> trunc x \<le> trunc y"
proof -
  assume xy: "x \<le> y"
  have a: "\<lfloor>x\<rfloor> \<le> \<lfloor>y\<rfloor>" "\<lceil>x\<rceil> \<le> \<lceil>y\<rceil>"
    using xy by (simp_all add: floor_mono ceiling_mono)
  have b: "\<lfloor>x\<rfloor> \<le> \<lceil>x\<rceil>" "\<lfloor>y\<rfloor> \<le> \<lceil>y\<rceil>" by simp_all
  have c: "x < 0 \<Longrightarrow> \<lceil>x\<rceil> \<le> 0" "0 \<le> y \<Longrightarrow> 0 \<le> \<lfloor>y\<rfloor>" by simp_all
  show ?thesis unfolding trunc_def using xy a b c by (auto; linarith)
qed

lemma sint_ToInt16:
  "- 32768 \<le> trunc x \<Longrightarrow> trunc x < 32768 \<Longrightarrow> sint (ToInt16 x) = trunc x"
  unfolding ToInt16_def by (simp add: sint_sbintrunc' signed_take_bit_int_eq_self)

lemma float32ToInt16_loop_eq:
  "l \<le> length xs \<Longrightarrow> length buf = length xs \<Longrightarrow>
   float32ToInt16_loop l xs buf = map quantize (take l xs) @ drop l buf"
proof (induction l arbitrary: buf)
  case 0
  then show ?case by simp
next
  case (Suc l)
  then show ?case
    by (simp add: take_Suc_conv_app_nth upd_conv_take_nth_drop Cons_nth_drop_Suc)
qed

lemma float32ToInt16_map: "float32ToInt16 xs = map quantize xs"
  by (simp add: float32ToInt16_def float32ToInt16_loop_eq)

text \<open>
  From \<open>- 1\<close> upwards the quantizer is the specification's: the clamped sample times
  32767, cut off towards zero, with no wrap-around.
\<close>

lemma sint_quantize:
  assumes "- 1 \<le> x"
  shows "sint (quantize x) = trunc (min 1 x * 32767)"
proof -
  have lo: "rat_of_int (- 32767) \<le> min 1 x * 32767" using assms by simp
  have hi: "min 1 x * 32767 \<le> rat_of_int 32767" by simp
  have "- 32767 \<le> trunc (min 1 x * 32767)"
    using trunc_mono [OF lo] by (simp only: trunc_of_int)
  moreover have "trunc (min 1 x * 32767) \<le> 32767"
    using trunc_mono [OF hi] by (simp only: trunc_of_int)
  ultimately show ?thesis
    unfolding quantize_def by (intro sint_ToInt16) simp_all
qed

lemma sint_quantize_clamp:
  "- 1 \<le> x \<Longrightarrow> sint (quantize x) = trunc (clamp x (- 1) 1 * 32767)"
  by (simp add: sint_quantize clamp_def max_def min_def)

text \<open>
  Every 16-bit sample lies in \<open>[-32768, 32767]\<close>, so the clamp of the dequantizer never
  acts: the result is \<open>q / 32768\<close>.
\<close>

lemma dequantize_exact: "dequantize q = of_int (sint q) / 32768"
proof -
  have "- 32768 \<le> sint q" "sint q < 32768"
    using sint_ge [of q] sint_lt [of q] by simp_all
  then have "rat_of_int (- 32768) \<le> rat_of_int (sint q)"
    "rat_of_int (sint q) \<le> rat_of_int 32768"
    by (simp_all only: of_int_le_iff)
  then have "- 1 \<le> rat_of_int (sint q) / 32768" "rat_of_int (sint q) / 32768 \<le> 1"
    by (simp_all add: le_divide_eq divide_le_eq del: of_int_sint)
  then show ?thesis unfolding dequantize_def by linarith
qed

text \<open>
  Claim C4 at the sample \<open>- 2\<close>. The quantizer has no lower clamp: \<open>min 1 (- 2) * 32767\<close>
  is \<open>- 65534\<close>, which the \<^verbatim>\<open>Int16Array\<close> store reduces modulo \<open>2 ^ 16\<close> to \<open>2\<close>, where
  the clamped sample \<open>- 1\<close> gives \<open>- 32767\<close>.
\<close>

theorem quantize_wraps_below_minus_one:
  "map sint (float32ToInt16 [- 2]) = [2] \<and>
   trunc (clamp (- 2) (- 1) 1 * 32767) = - 32767"
  by (simp add: float32ToInt16_def quantize_def ToInt16_def trunc_def clamp_def)

text \<open>
  Claim C5, amended. For a sample \<open>x\<close> in \<open>[-1, 1]\<close>, quantizing and dequantizing returns a
  value less than two steps of \<open>1/32768\<close> away from \<open>x\<close>: cutting \<open>32767 x\<close> to an integer
  loses less than one step, and dividing by 32768 instead of 32767 moves the result by
  up to one more step, in the same direction.
\<close>

theorem roundtrip_bound:
  assumes "- 1 \<le> x" "x \<le> 1"
  shows "\<bar>dequantize (quantize x) - x\<bar> < 2 / 32768"
proof -
  define y where "y = x * 32767"
  define d where "d = y - of_int (trunc y)"
  have q: "sint (quantize x) = trunc y"
    using sint_quantize [OF assms(1)] assms(2) by (simp add: y_def min_def)
  have eq: "dequantize (quantize x) - x = - (d + x) / 32768"
    unfolding dequantize_exact q d_def y_def by (simp add: field_simps)
  have "\<bar>d + x\<bar> < 2"
  proof (cases "0 \<le> x")
    case True
    then have "0 \<le> y" by (simp add: y_def)
    from trunc_same_sign(1) [OF this] True assms show ?thesis by (simp add: d_def)
  next
    case False
    then have "y \<le> 0" by (simp add: y_def)
    from trunc_same_sign(2) [OF this] False assms show ?thesis by (simp add: d_def)
  qed
  then show ?thesis unfolding eq by simp
qed

theorem roundtrip_bound_witness:
  "(- 1 :: rat) \<le> 1 / 3 \<and> (1 / 3 :: rat) \<le> 1 \<and>
   \<bar>dequantize (quantize (1 / 3)) - 1 / 3\<bar> < 2 / 32768"
  using roundtrip_bound [of "1 / 3"] by simp

text \<open>
  Claim C5 as stated fails at \<open>x = 1 - 2\<^sup>-\<^sup>2\<^sup>0\<close>, a value a 32-bit float holds exactly: the
  quantizer gives 32766, the dequantizer \<open>32766/32768\<close>, and the difference
  \<open>63 / 2\<^sup>2\<^sup>0\<close> exceeds both \<open>1/32768\<close> and \<open>1/32767\<close>.
\<close>

theorem roundtrip_exceeds_one_step:
  "- 1 \<le> (1048575 / 1048576 :: rat) \<and> (1048575 / 1048576 :: rat) \<le> 1 \<and>
   sint (quantize (1048575 / 1048576)) = 32766 \<and>
   \<bar>dequantize (quantize (1048575 / 1048576)) - 1048575 / 1048576\<bar> = 63 / 1048576 \<and>
   \<not> \<bar>dequantize (quantize (1048575 / 1048576)) - 1048575 / 1048576\<bar> \<le> 1 / 32767"
  by (simp add: dequantize_def quantize_def ToInt16_def trunc_def)

section \<open>Playback: the end-of-stream notification\<close>

lemma process_posted: "fst (snd (process n p)) = (ended p \<and> length (buffer p) < n)"
  by (simp add: process_def)

lemma process_out: "fst (process n p) = take n (buffer p @ replicate n 0)"
  by (simp add: process_def)

lemma process_buffer: "buffer (snd (snd (process n p))) = drop n (buffer p)"
  by (simp add: process_def)

lemma process_ended: "ended (snd (snd (process n p))) = (ended p \<and> n \<le> length (buffer p))"
  by (auto simp add: process_def)

lemma run_Render:
  "fst (PCMPlayer_run sr p (Render n # evs)) =
     fst (snd (process n p)) # fst (PCMPlayer_run sr (snd (snd (process n p))) evs)"
  by (simp add: split_def Let_def)

lemma run_Message:
  "fst (PCMPlayer_run sr p (Message m # evs)) =
     False # fst (PCMPlayer_run sr (PCMPlayer_onmessage sr m p) evs)"
  by (simp add: split_def Let_def)

text \<open>
  With the end marker set and a block size \<open>n > 0\<close>, a buffer of \<open>k\<close> full blocks is
  played by \<open>k\<close> callbacks that post nothing; the callback after them underruns and posts.
\<close>

lemma drain_posts:
  assumes "0 < n" "ended p" "length (buffer p) div n = k"
  shows "fst (PCMPlayer_run sr p (replicate (Suc k) (Render n))) = replicate k False @ [True]"
  using assms
proof (induction k arbitrary: p)
  case 0
  then have "length (buffer p) < n"
    by (metis div_eq_0_iff less_numeral_extra(3))
  with 0 show ?case by (simp add: run_Render process_posted del: PCMPlayer_run.simps(3))
next
  case (Suc k)
  then have ge: "n \<le> length (buffer p)"
    by (metis div_less not_le_imp_less nat.distinct(1))
  let ?p = "snd (snd (process n p))"
  have "length (buffer ?p) div n = k"
    using Suc.prems ge le_div_geq [of n "length (buffer p)"] by (simp add: process_buffer)
  moreover have "ended ?p" using Suc.prems ge by (simp add: process_ended)
  ultimately have "fst (PCMPlayer_run sr ?p (replicate (Suc k) (Render n))) = replicate k False @ [True]"
    using Suc.IH Suc.prems(1) by blast
  moreover have "\<not> fst (snd (process n p))" using ge by (simp add: process_posted)
  ultimately show ?case
    by (simp add: run_Render del: PCMPlayer_run.simps(3))
qed

lemma onmessage_ended:
  "ended (PCMPlayer_onmessage sr m p) = (m = End \<or> ended p)"
  by (cases m) (auto simp: PCMPlayer_onmessage_def enqueue_def split: outcome.splits)

text \<open>
  Over any interleaving of port messages and render callbacks, the notifications posted
  number at most the end markers received, plus one for a marker already set.
\<close>

lemma posts_bounded:
  "length (filter id (fst (PCMPlayer_run sr p evs))) \<le>
     length (filter (\<lambda>e. e = Message End) evs) + (if ended p then 1 else 0)"
proof (induction evs arbitrary: p)
  case Nil
  then show ?case by simp
next
  case (Cons ev evs)
  show ?case
  proof (cases ev)
    case (Message m)
    show ?thesis
      using Cons.IH [of "PCMPlayer_onmessage sr m p"]
      unfolding Message run_Message by (auto simp: onmessage_ended split: if_splits)
  next
    case (Render n)
    show ?thesis
      using Cons.IH [of "snd (snd (process n p))"]
      unfolding Render run_Render by (auto simp: process_posted process_ended split: if_splits)
  qed
qed

text \<open>
  Claim C8. The end message only records the marker. A callback that finds a full
  block in the buffer plays it and posts nothing. A callback that finds less plays
  what is left, fills the block with zeros, empties the buffer, and posts the
  notification exactly when the marker is set, clearing it. So, with the marker set, the
  notification comes in the first callback that underruns, after every full block has
  been played.
\<close>

theorem end_of_stream_after_drain:
  "PCMPlayer_onmessage sampleRate End p = p\<lparr>ended := True\<rparr> \<and>
   fst (PCMPlayer_run sampleRate p [Message End]) = [False] \<and>
   (n \<le> length (buffer p) \<longrightarrow>
      process n p = (take n (buffer p), False, p\<lparr>buffer := drop n (buffer p)\<rparr>)) \<and>
   (length (buffer p) < n \<longrightarrow>
      process n p =
        (buffer p @ replicate (n - length (buffer p)) 0, ended p,
         p\<lparr>buffer := [], ended := False\<rparr>)) \<and>
   (0 < n \<and> ended p \<longrightarrow>
      fst (PCMPlayer_run sampleRate p (replicate (Suc (length (buffer p) div n)) (Render n))) =
        replicate (length (buffer p) div n) False @ [True])"
proof (intro conjI impI)
  show "PCMPlayer_onmessage sampleRate End p = p\<lparr>ended := True\<rparr>"
    by (simp add: PCMPlayer_onmessage_def)
next
  show "fst (PCMPlayer_run sampleRate p [Message End]) = [False]"
    by (simp add: run_Message del: PCMPlayer_run.simps(2))
next
  assume "n \<le> length (buffer p)"
  then show "process n p = (take n (buffer p), False, p\<lparr>buffer := drop n (buffer p)\<rparr>)"
    by (simp add: process_def)
next
  assume "length (buffer p) < n"
  then show "process n p =
      (buffer p @ replicate (n - length (buffer p)) 0, ended p,
       p\<lparr>buffer := [], ended := False\<rparr>)"
    by (simp add: process_def)
next
  assume "0 < n \<and> ended p"
  then show "fst (PCMPlayer_run sampleRate p
        (replicate (Suc (length (buffer p) div n)) (Render n))) =
      replicate (length (buffer p) div n) False @ [True]"
    by (simp only: drain_posts)
qed

theorem end_of_stream_after_drain_witness:
  "process 2 \<lparr>inputRate = 24000, buffer = [1/2, 1/4, 1/8], ended = True\<rparr> =
     ([1/2, 1/4], False, \<lparr>inputRate = 24000, buffer = [1/8], ended = True\<rparr>) \<and>
   process 2 \<lparr>inputRate = 24000, buffer = [1/8], ended = True\<rparr> =
     ([1/8, 0], True, \<lparr>inputRate = 24000, buffer = [], ended = False\<rparr>) \<and>
   fst (PCMPlayer_run 48000 \<lparr>inputRate = 24000, buffer = [1/2, 1/4, 1/8], ended = True\<rparr>
          [Render 2, Render 2]) = [False, True]"
  using end_of_stream_after_drain
      [of 48000 "\<lparr>inputRate = 24000, buffer = [1/2, 1/4, 1/8], ended = True\<rparr>" 2]
    end_of_stream_after_drain
      [of 48000 "\<lparr>inputRate = 24000, buffer = [1/8], ended = True\<rparr>" 2]
  by (simp add: numeral_2_eq_2)

text \<open>
  Claim C10. A callback that posts the notification leaves the marker cleared, and over
  any run the notifications number at most the end markers received (plus one for a
  marker set at the start); without a marker, and until the next one, nothing is posted.
\<close>

theorem ended_posted_once:
  "(fst (snd (process n p)) \<longrightarrow> \<not> ended (snd (snd (process n p)))) \<and>
   length (filter id (fst (PCMPlayer_run sampleRate p evs))) \<le>
     length (filter (\<lambda>e. e = Message End) evs) + (if ended p then 1 else 0) \<and>
   (\<not> ended p \<and> Message End \<notin> set evs \<longrightarrow>
      True \<notin> set (fst (PCMPlayer_run sampleRate p evs)))"
proof (intro conjI impI)
  assume "fst (snd (process n p))"
  then show "\<not> ended (snd (snd (process n p)))"
    by (simp add: process_posted process_ended)
next
  show "length (filter id (fst (PCMPlayer_run sampleRate p evs))) \<le>
      length (filter (\<lambda>e. e = Message End) evs) + (if ended p then 1 else 0)"
    by (rule posts_bounded)
next
  assume a: "\<not> ended p \<and> Message End \<notin> set evs"
  then have "filter (\<lambda>e. e = Message End) evs = []"
    by (auto simp: filter_empty_conv)
  with a posts_bounded [of sampleRate p evs]
  have "filter id (fst (PCMPlayer_run sampleRate p evs)) = []" by simp
  then show "True \<notin> set (fst (PCMPlayer_run sampleRate p evs))"
    by (auto simp: filter_empty_conv)
qed

theorem ended_posted_once_witness:
  "fst (PCMPlayer_run 48000 \<lparr>inputRate = 24000, buffer = [1/2], ended = False\<rparr>
          [Message End, Render 2, Render 2, Render 2]) = [False, True, False, False] \<and>
   \<not> ended (snd (snd (process 2 \<lparr>inputRate = 24000, buffer = [1/2], ended = True\<rparr>))) \<and>
   True \<notin> set (fst (PCMPlayer_run 48000 \<lparr>inputRate = 24000, buffer = [], ended = False\<rparr>
          [Render 2, Render 2]))"
proof -
  have a: "fst (PCMPlayer_run 48000 \<lparr>inputRate = 24000, buffer = [1/2], ended = False\<rparr>
          [Message End, Render 2, Render 2, Render 2]) = [False, True, False, False]"
    by (simp add: process_def PCMPlayer_onmessage_def)
  have b: "fst (snd (process 2 \<lparr>inputRate = 24000, buffer = [1/2], ended = True\<rparr>))"
    by (simp add: process_def)
  show ?thesis
    using a b
      ended_posted_once [of 2 "\<lparr>inputRate = 24000, buffer = [1/2], ended = True\<rparr>" 48000 "[]"]
      ended_posted_once [of 2 "\<lparr>inputRate = 24000, buffer = [], ended = False\<rparr>" 48000
        "[Render 2, Render 2]"]
    by simp
qed

section \<open>The capture lock under the controller's steps\<close>

lemma stopListening_fields [simp]:
  "status (stopListening s) = status s"
  "sttLocked (stopListening s) = sttLocked s"
  "ttsPlaying (stopListening s) = ttsPlaying s"
  "socket (stopListening s) = socket s"
  "ttsWorkletNode (stopListening s) = ttsWorkletNode s"
  "effects (stopListening s) = effects s"
  by (simp_all add: stopListening_def split: option.splits)

lemma stopSession_flags:
  "status (stopSession s) = Idle"
  "status s \<noteq> Idle \<Longrightarrow> \<not> sttLocked (stopSession s) \<and> \<not> ttsPlaying (stopSession s)"
  by (simp_all add: stopSession_def Let_def split: option.splits)

lemma stopSession_idle: "status s = Idle \<Longrightarrow> stopSession s = s"
  by (simp add: stopSession_def)

lemma lock_inv_stopSession: "lock_inv_strong s \<Longrightarrow> lock_inv_strong (stopSession s)"
proof (cases "status s = Idle")
  case True
  assume "lock_inv_strong s"
  with True show ?thesis by (simp add: stopSession_idle)
next
  case False
  from stopSession_flags(2) [OF False] stopSession_flags(1) [of s]
  show ?thesis by (simp add: lock_inv_strong_def lock_inv_def)
qed

lemma startListening_cases:
  "startListening g s = s \<and> (sttLocked s \<or> socket s \<noteq> Some OPEN) \<or>
   (\<not> sttLocked s \<and> status (startListening g s) = Listening \<and> \<not> sttLocked (startListening g s)
      \<and> ttsPlaying (startListening g s) = ttsPlaying s) \<or>
   (\<not> sttLocked s \<and> startListening g s = stopSession (s\<lparr>status := Listening, finalAnswer := [], effects := effects s @ [Alert]\<rparr>))"
  by (auto simp add: startListening_def Let_def split: option.splits)

lemma lock_inv_startListening: "lock_inv_strong s \<Longrightarrow> lock_inv_strong (startListening g s)"
proof -
  assume inv: "lock_inv_strong s"
  consider (same) "startListening g s = s"
    | (listen) "\<not> sttLocked s" "status (startListening g s) = Listening"
        "\<not> sttLocked (startListening g s)" "ttsPlaying (startListening g s) = ttsPlaying s"
    | (denied) "\<not> sttLocked s" "startListening g s =
        stopSession (s\<lparr>status := Listening, finalAnswer := [], effects := effects s @ [Alert]\<rparr>)"
    using startListening_cases [of g s] by blast
  then show ?thesis
  proof cases
    case same
    with inv show ?thesis by simp
  next
    case listen
    with inv show ?thesis by (simp add: lock_inv_strong_def lock_inv_def)
  next
    case denied
    have "lock_inv_strong (s\<lparr>status := Listening, finalAnswer := [], effects := effects s @ [Alert]\<rparr>)"
      using inv denied(1) by (simp add: lock_inv_strong_def lock_inv_def)
    then show ?thesis unfolding denied(2) by (rule lock_inv_stopSession)
  qed
qed

lemma initTtsPlayer_fields [simp]:
  "status (initTtsPlayer s) = status s"
  "sttLocked (initTtsPlayer s) = sttLocked s"
  "ttsPlaying (initTtsPlayer s) = ttsPlaying s"
  "ttsWorkletNode (initTtsPlayer s) \<noteq> None"
  by (simp_all add: initTtsPlayer_def split: option.splits)

lemma lock_inv_onmessage:
  assumes "lock_inv_strong s" "\<And>d. msg = TtsChunk d \<Longrightarrow> atob d \<noteq> None"
  shows "lock_inv_strong (socket_onmessage msg s)"
proof (cases msg)
  case SttEnd
  with assms show ?thesis
    by (simp add: socket_onmessage_def lock_inv_strong_def lock_inv_def)
next
  case (FinalAnswer d)
  with assms show ?thesis
    by (simp add: socket_onmessage_def lock_inv_strong_def lock_inv_def)
next
  case (TtsChunk d)
  then obtain bin where bin: "atob d = Some bin" using assms(2) by blast
  show ?thesis
    using assms(1) unfolding TtsChunk
    by (auto simp add: socket_onmessage_def pushTtsChunkBase64_def bin Let_def
        lock_inv_strong_def lock_inv_def split: option.splits)
next
  case TtsEnd
  with assms show ?thesis
    by (simp add: socket_onmessage_def endTtsStream_def lock_inv_strong_def lock_inv_def
        split: option.splits)
next
  case (Error m)
  with assms show ?thesis by (simp add: socket_onmessage_def lock_inv_stopSession)
next
  case Unknown
  with assms show ?thesis by (simp add: socket_onmessage_def)
qed

text \<open>
  Every step of the controller other than the connection's \<^verbatim>\<open>close\<close> preserves the
  invariant, provided the payload of a speech chunk decodes; where \<^verbatim>\<open>atob\<close> throws, the
  chunk handler has already set the lock and leaves the status as it was.
\<close>

lemma lock_inv_step:
  assumes "lock_inv_strong s" "ev \<noteq> WsClose"
    "\<And>d. ev = WsMessage (TtsChunk d) \<Longrightarrow> atob d \<noteq> None"
  shows "lock_inv_strong (step ev s)"
proof (cases ev)
  case Toggle
  show ?thesis
  proof (cases "status s = Idle")
    case True
    with assms(1) show ?thesis
      by (auto simp add: Toggle step_def toggleSession_def startSession_def setupWebSocket_def
          lock_inv_strong_def lock_inv_def)
  next
    case False
    with assms(1) show ?thesis
      by (simp add: Toggle step_def toggleSession_def lock_inv_stopSession)
  qed
next
  case (WsOpen g)
  have "lock_inv_strong (s\<lparr>socket := Some OPEN\<rparr>)"
    using assms(1) by (simp add: lock_inv_strong_def lock_inv_def)
  then show ?thesis
    using assms(1) by (simp add: WsOpen step_def socket_onopen_def lock_inv_startListening)
next
  case (WsMessage msg)
  with assms show ?thesis by (simp add: step_def lock_inv_onmessage)
next
  case WsError
  with assms show ?thesis by (simp add: step_def socket_onerror_def lock_inv_stopSession)
next
  case WsClose
  with assms show ?thesis by simp
next
  case (PlaybackEnded g)
  define s1 where "s1 = s\<lparr>ttsPlaying := False, sttLocked := False\<rparr>"
  have free: "\<not> sttLocked s1" "\<not> ttsPlaying s1" by (simp_all add: s1_def)
  have stop: "lock_inv_strong (stopSession s1)"
  proof (cases "status s1 = Idle")
    case True
    with free show ?thesis by (simp add: stopSession_idle lock_inv_strong_def lock_inv_def)
  next
    case False
    from stopSession_flags(2) [OF False] stopSession_flags(1) [of s1]
    show ?thesis by (simp add: lock_inv_strong_def lock_inv_def)
  qed
  have listen: "lock_inv_strong (startListening g s1)" if "socket_open s1"
  proof -
    have op: "socket s1 = Some OPEN"
      using that by (simp add: socket_open_def split: option.splits)
    consider (listen) "status (startListening g s1) = Listening"
        "\<not> sttLocked (startListening g s1)" "ttsPlaying (startListening g s1) = ttsPlaying s1"
      | (denied) "startListening g s1 =
          stopSession (s1\<lparr>status := Listening, finalAnswer := [], effects := effects s1 @ [Alert]\<rparr>)"
      using startListening_cases [of g s1] free op by blast
    then show ?thesis
    proof cases
      case listen
      with free show ?thesis by (simp add: lock_inv_strong_def lock_inv_def)
    next
      case denied
      have "lock_inv_strong (s1\<lparr>status := Listening, finalAnswer := [], effects := effects s1 @ [Alert]\<rparr>)"
        using free by (simp add: lock_inv_strong_def lock_inv_def)
      then show ?thesis unfolding denied by (rule lock_inv_stopSession)
    qed
  qed
  show ?thesis
    using stop listen
    by (simp add: PlaybackEnded step_def ttsWorkletNode_onmessage_def Let_def s1_def [symmetric])
next
  case (CaptureFrame data)
  with assms(1) show ?thesis
    by (auto simp add: step_def userWorkletNode_onmessage_def lock_inv_strong_def lock_inv_def)
qed

lemma lock_inv_initial: "lock_inv_strong initial"
  by (simp add: lock_inv_strong_def lock_inv_def initial_def)

section \<open>Teardown and transmission\<close>

lemma sends_append [simp]: "sends (xs @ ys) = sends xs @ sends ys"
  by (induction xs rule: sends.induct) simp_all

lemma stopListening_eq:
  "stopListening s = s\<lparr>mediaStream := map_option (\<lambda>m. m\<lparr>enabled := False\<rparr>) (mediaStream s)\<rparr>"
  by (simp add: stopListening_def split: option.splits)

lemma release_socket:
  "(case socket t of None \<Rightarrow> t
    | Some r \<Rightarrow> t\<lparr>socket := None, effects := effects t @ [SocketClose]\<rparr>) =
   t\<lparr>socket := None,
     effects := effects t @ (if socket t \<noteq> None then [SocketClose] else [])\<rparr>"
  by (cases "socket t") simp_all

lemma release_stream:
  "(case mediaStream t of None \<Rightarrow> t
    | Some m \<Rightarrow> t\<lparr>mediaStream := None, effects := effects t @ [TrackStop]\<rparr>) =
   t\<lparr>mediaStream := None,
     effects := effects t @ (if mediaStream t \<noteq> None then [TrackStop] else [])\<rparr>"
  by (cases "mediaStream t") simp_all

lemma release_source:
  "(if userSourceNode t
    then t\<lparr>userSourceNode := False, effects := effects t @ [SourceDisconnect]\<rparr> else t) =
   t\<lparr>userSourceNode := False,
     effects := effects t @ (if userSourceNode t then [SourceDisconnect] else [])\<rparr>"
  by (cases "userSourceNode t") simp_all

lemma release_capture:
  "(if userWorkletNode t
    then t\<lparr>userWorkletNode := False, effects := effects t @ [CaptureDisconnect]\<rparr> else t) =
   t\<lparr>userWorkletNode := False,
     effects := effects t @ (if userWorkletNode t then [CaptureDisconnect] else [])\<rparr>"
  by (cases "userWorkletNode t") simp_all

lemma release_playback:
  "(case ttsWorkletNode t of None \<Rightarrow> t
    | Some port \<Rightarrow> t\<lparr>ttsWorkletNode := None, effects := effects t @ [PlaybackDisconnect]\<rparr>) =
   t\<lparr>ttsWorkletNode := None,
     effects := effects t @ (if ttsWorkletNode t \<noteq> None then [PlaybackDisconnect] else [])\<rparr>"
  by (cases "ttsWorkletNode t") simp_all

text \<open>
  From every status but \<open>Idle\<close>, \<^verbatim>\<open>stopSession\<close> releases each resource the session
  holds once, clears both flags and both analysers, and ends in \<open>Idle\<close>, where a second
  call does nothing.
\<close>

lemma stopSession_releases:
  assumes "status s \<noteq> Idle"
  shows "stopSession s =
    s\<lparr>status := Idle, socket := None, mediaStream := None, userSourceNode := False,
      userWorkletNode := False, ttsWorkletNode := None, sttLocked := False,
      ttsPlaying := False, userAnalyser := False, aiAnalyser := False,
      effects := effects s @ released s\<rparr>"
  using assms
  unfolding stopSession_def Let_def release_socket release_stream release_source
    release_capture release_playback stopListening_eq released_def
  by simp

lemma stopSession_idempotent: "stopSession (stopSession s) = stopSession s"
  by (simp add: stopSession_idle stopSession_flags)

lemma released_after_stop: "released (stopSession s) = [] \<or> status s = Idle"
  by (cases "status s = Idle") (simp_all add: stopSession_releases released_def)

lemma sends_released [simp]: "sends (released s) = []"
  by (simp add: released_def)

lemma sends_stopSession [simp]: "sends (effects (stopSession s)) = sends (effects s)"
  by (cases "status s = Idle") (simp_all add: stopSession_idle stopSession_releases)

lemma sends_startListening [simp]: "sends (effects (startListening g s)) = sends (effects s)"
  by (auto simp add: startListening_def Let_def)

lemma sends_onmessage [simp]: "sends (effects (socket_onmessage msg s)) = sends (effects s)"
  by (cases msg)
     (auto simp add: socket_onmessage_def initTtsPlayer_def pushTtsChunkBase64_def
        endTtsStream_def Let_def split: option.splits)

lemma sends_step:
  "sends (effects (step ev s)) =
     sends (effects s) @
     (case ev of
        CaptureFrame data \<Rightarrow>
          if \<not> sttLocked s \<and> socket s = Some OPEN then [btoa data] else []
      | _ \<Rightarrow> [])"
  by (cases ev)
     (auto simp add: step_def toggleSession_def startSession_def setupWebSocket_def
        socket_onopen_def socket_onerror_def socket_onclose_def
        ttsWorkletNode_onmessage_def userWorkletNode_onmessage_def Let_def)

text \<open>
  Claim C2. The handler of a capture frame returns the session unchanged, so with
  nothing sent and nothing kept, when the lock is set or the socket is absent or not
  open; otherwise it sends the base64 text of the frame. No other step of the
  controller transmits: whenever a step adds to the frames sent, it is a capture frame
  arriving with the lock unset and the socket open.
\<close>

theorem capture_frame_gate:
  "(sttLocked s \<or> socket s = None \<or> socket s \<noteq> Some OPEN \<longrightarrow>
      userWorkletNode_onmessage data s = s) \<and>
   (\<not> sttLocked s \<and> socket s = Some OPEN \<longrightarrow>
      userWorkletNode_onmessage data s = s\<lparr>effects := effects s @ [SocketSend (btoa data)]\<rparr>) \<and>
   (sends (effects (step ev s)) \<noteq> sends (effects s) \<longrightarrow>
      (\<exists>frame. ev = CaptureFrame frame) \<and> \<not> sttLocked s \<and> socket s = Some OPEN)"
proof (intro conjI impI)
  assume "sttLocked s \<or> socket s = None \<or> socket s \<noteq> Some OPEN"
  then show "userWorkletNode_onmessage data s = s"
    by (auto simp add: userWorkletNode_onmessage_def)
next
  assume "\<not> sttLocked s \<and> socket s = Some OPEN"
  then show "userWorkletNode_onmessage data s =
      s\<lparr>effects := effects s @ [SocketSend (btoa data)]\<rparr>"
    by (simp add: userWorkletNode_onmessage_def)
next
  assume a: "sends (effects (step ev s)) \<noteq> sends (effects s)"
  then show "\<exists>frame. ev = CaptureFrame frame"
    unfolding sends_step by (cases ev) simp_all
  from a show "\<not> sttLocked s" unfolding sends_step by (cases ev) (auto split: if_splits)
  from a show "socket s = Some OPEN" unfolding sends_step by (cases ev) (auto split: if_splits)
qed

theorem capture_frame_gate_witness:
  "effects (run [Toggle, WsOpen True, CaptureFrame [1, 2]] initial) = [SocketSend ''AQI=''] \<and>
   sttLocked (run [Toggle, WsOpen True, WsMessage SttEnd] initial) \<and>
   effects (run [Toggle, WsOpen True, WsMessage SttEnd, CaptureFrame [1, 2]] initial) = []"
proof -
  have s1: "run [Toggle, WsOpen True] initial =
      \<lparr>status = Listening, finalAnswer = [], userAnalyser = True, aiAnalyser = False,
       socket = Some OPEN, audioContext = True, userSourceNode = True,
       userWorkletNode = True, mediaStream = Some \<lparr>active = True, enabled = True\<rparr>,
       ttsWorkletNode = None, sttLocked = False, ttsPlaying = False, effects = []\<rparr>"
    by (simp add: initial_def step_def toggleSession_def startSession_def setupWebSocket_def
        socket_onopen_def startListening_def)
  have s2: "run [Toggle, WsOpen True, WsMessage SttEnd] initial =
      \<lparr>status = Processing, finalAnswer = [], userAnalyser = True, aiAnalyser = False,
       socket = Some OPEN, audioContext = True, userSourceNode = True,
       userWorkletNode = True, mediaStream = Some \<lparr>active = True, enabled = False\<rparr>,
       ttsWorkletNode = None, sttLocked = True, ttsPlaying = False, effects = []\<rparr>"
    by (simp add: initial_def step_def toggleSession_def startSession_def setupWebSocket_def
        socket_onopen_def startListening_def socket_open_def socket_onmessage_def
        stopListening_def)
  have b: "btoa [1, 2] = ''AQI=''" by code_simp
  have r1: "run [Toggle, WsOpen True, CaptureFrame [1, 2]] initial =
      userWorkletNode_onmessage [1, 2] (run [Toggle, WsOpen True] initial)"
    by (simp add: step_def)
  have r2: "run [Toggle, WsOpen True, WsMessage SttEnd, CaptureFrame [1, 2]] initial =
      userWorkletNode_onmessage [1, 2] (run [Toggle, WsOpen True, WsMessage SttEnd] initial)"
    by (simp add: step_def)
  show ?thesis
    unfolding r1 r2
    using capture_frame_gate [of "run [Toggle, WsOpen True] initial" "[1, 2]"]
      capture_frame_gate [of "run [Toggle, WsOpen True, WsMessage SttEnd] initial" "[1, 2]"]
    unfolding s1 s2 by (simp add: b)
qed

text \<open>
  Claim C9. \<^verbatim>\<open>toggleSession\<close> looks at the status only. From \<open>Idle\<close> it starts a session:
  the status becomes \<open>Connecting\<close>, an audio context is created and a connection is
  opened, and nothing else changes. From any other status it stops the session: the
  connection is closed, the microphone tracks are stopped and the source, capture and
  playback nodes are disconnected, each once if it is held and in this order; the
  references, both flags and both analysers are cleared, and the status is \<open>Idle\<close>.
  \<^verbatim>\<open>startSession\<close> outside \<open>Idle\<close> and \<^verbatim>\<open>stopSession\<close> in \<open>Idle\<close> return the session as it
  is.
\<close>

theorem toggle_by_status:
  "toggleSession s = (if status s = Idle then startSession s else stopSession s) \<and>
   (status s = Idle \<longrightarrow>
      status (toggleSession s) = Connecting \<and> socket (toggleSession s) = Some CONNECTING) \<and>
   (status s \<noteq> Idle \<longrightarrow>
      status (toggleSession s) = Idle \<and> socket (toggleSession s) = None) \<and>
   (status s \<noteq> Idle \<longrightarrow> startSession s = s) \<and>
   (status s = Idle \<longrightarrow> stopSession s = s) \<and>
   (status s = Idle \<longrightarrow>
      toggleSession s =
        s\<lparr>status := Connecting, audioContext := True, socket := Some CONNECTING\<rparr>) \<and>
   (status s \<noteq> Idle \<longrightarrow>
      toggleSession s =
        s\<lparr>status := Idle, socket := None, mediaStream := None, userSourceNode := False,
          userWorkletNode := False, ttsWorkletNode := None, sttLocked := False,
          ttsPlaying := False, userAnalyser := False, aiAnalyser := False,
          effects := effects s @
            (if socket s \<noteq> None then [SocketClose] else []) @
            (if mediaStream s \<noteq> None then [TrackStop] else []) @
            (if userSourceNode s then [SourceDisconnect] else []) @
            (if userWorkletNode s then [CaptureDisconnect] else []) @
            (if ttsWorkletNode s \<noteq> None then [PlaybackDisconnect] else [])\<rparr>)"
proof (intro conjI impI)
  show "toggleSession s = (if status s = Idle then startSession s else stopSession s)"
    by (simp add: toggleSession_def)
next
  assume "status s = Idle"
  then show "status (toggleSession s) = Connecting"
    by (simp add: toggleSession_def startSession_def setupWebSocket_def)
next
  assume "status s = Idle"
  then show "socket (toggleSession s) = Some CONNECTING"
    by (simp add: toggleSession_def startSession_def setupWebSocket_def)
next
  assume "status s \<noteq> Idle"
  then show "status (toggleSession s) = Idle"
    by (simp add: toggleSession_def stopSession_flags)
next
  assume "status s \<noteq> Idle"
  then show "socket (toggleSession s) = None"
    by (simp add: toggleSession_def stopSession_releases)
next
  assume "status s \<noteq> Idle"
  then show "startSession s = s" by (simp add: startSession_def)
next
  assume "status s = Idle"
  then show "stopSession s = s" by (rule stopSession_idle)
next
  assume "status s = Idle"
  then show "toggleSession s =
      s\<lparr>status := Connecting, audioContext := True, socket := Some CONNECTING\<rparr>"
    by (simp add: toggleSession_def startSession_def setupWebSocket_def)
next
  assume "status s \<noteq> Idle"
  then show "toggleSession s =
      s\<lparr>status := Idle, socket := None, mediaStream := None, userSourceNode := False,
        userWorkletNode := False, ttsWorkletNode := None, sttLocked := False,
        ttsPlaying := False, userAnalyser := False, aiAnalyser := False,
        effects := effects s @
          (if socket s \<noteq> None then [SocketClose] else []) @
          (if mediaStream s \<noteq> None then [TrackStop] else []) @
          (if userSourceNode s then [SourceDisconnect] else []) @
          (if userWorkletNode s then [CaptureDisconnect] else []) @
          (if ttsWorkletNode s \<noteq> None then [PlaybackDisconnect] else [])\<rparr>"
    using stopSession_releases [of s] by (simp add: toggleSession_def released_def)
qed

text \<open>
  A session that is speaking: started, connection open, one speech chunk received.
\<close>

lemma run_speaking:
  "run [Toggle, WsOpen True, WsMessage (TtsChunk ''AQI='')] initial =
      \<lparr>status = Speaking, finalAnswer = [], userAnalyser = True, aiAnalyser = True,
       socket = Some OPEN, audioContext = True, userSourceNode = True,
       userWorkletNode = True, mediaStream = Some \<lparr>active = True, enabled = False\<rparr>,
       ttsWorkletNode = Some [Chunk [513]], sttLocked = True, ttsPlaying = True,
       effects = []\<rparr>"
proof -
  have a: "atob ''AQI='' = Some [1, 2]" by code_simp
  have b: "int16_of_binary [1, 2] = [513]" by simp
  show ?thesis
    by (simp add: a b initial_def step_def toggleSession_def startSession_def
        setupWebSocket_def socket_onopen_def startListening_def socket_open_def
        socket_onmessage_def stopListening_def initTtsPlayer_def pushTtsChunkBase64_def)
qed

theorem toggle_by_status_witness:
  "toggleSession initial =
     initial\<lparr>status := Connecting, audioContext := True, socket := Some CONNECTING\<rparr> \<and>
   status (toggleSession initial) = Connecting \<and>
   socket (toggleSession initial) = Some CONNECTING \<and>
   startSession (toggleSession initial) = toggleSession initial \<and>
   stopSession initial = initial \<and>
   toggleSession (run [Toggle, WsOpen True, WsMessage (TtsChunk ''AQI='')] initial) =
     \<lparr>status = Idle, finalAnswer = [], userAnalyser = False, aiAnalyser = False,
      socket = None, audioContext = True, userSourceNode = False,
      userWorkletNode = False, mediaStream = None, ttsWorkletNode = None,
      sttLocked = False, ttsPlaying = False,
      effects = [SocketClose, TrackStop, SourceDisconnect, CaptureDisconnect,
        PlaybackDisconnect]\<rparr>"
proof -
  have i: "status initial = Idle" by (simp add: initial_def)
  have t: "toggleSession initial =
      initial\<lparr>status := Connecting, audioContext := True, socket := Some CONNECTING\<rparr> \<and>
      status (toggleSession initial) = Connecting \<and>
      socket (toggleSession initial) = Some CONNECTING \<and> stopSession initial = initial"
    using toggle_by_status [of initial] i by blast
  then have c: "status (toggleSession initial) \<noteq> Idle" by simp
  have st: "startSession (toggleSession initial) = toggleSession initial"
    using c toggle_by_status [of "toggleSession initial"] by blast
  have sp: "status (run [Toggle, WsOpen True, WsMessage (TtsChunk ''AQI='')] initial) \<noteq> Idle"
    by (simp only: run_speaking) simp
  have stop: "toggleSession (run [Toggle, WsOpen True, WsMessage (TtsChunk ''AQI='')] initial) =
     \<lparr>status = Idle, finalAnswer = [], userAnalyser = False, aiAnalyser = False,
      socket = None, audioContext = True, userSourceNode = False,
      userWorkletNode = False, mediaStream = None, ttsWorkletNode = None,
      sttLocked = False, ttsPlaying = False,
      effects = [SocketClose, TrackStop, SourceDisconnect, CaptureDisconnect,
        PlaybackDisconnect]\<rparr>"
  proof -
    let ?s = "run [Toggle, WsOpen True, WsMessage (TtsChunk ''AQI='')] initial"
    have "toggleSession ?s =
        ?s\<lparr>status := Idle, socket := None, mediaStream := None, userSourceNode := False,
          userWorkletNode := False, ttsWorkletNode := None, sttLocked := False,
          ttsPlaying := False, userAnalyser := False, aiAnalyser := False,
          effects := effects ?s @
            (if socket ?s \<noteq> None then [SocketClose] else []) @
            (if mediaStream ?s \<noteq> None then [TrackStop] else []) @
            (if userSourceNode ?s then [SourceDisconnect] else []) @
            (if userWorkletNode ?s then [CaptureDisconnect] else []) @
            (if ttsWorkletNode ?s \<noteq> None then [PlaybackDisconnect] else [])\<rparr>"
      using sp toggle_by_status [of ?s] by blast
    then show ?thesis unfolding run_speaking by simp
  qed
  show ?thesis using t st stop by blast
qed

section \<open>The connection's close handler\<close>

lemma run_processing:
  "run [Toggle, WsOpen True, WsMessage SttEnd] initial =
      \<lparr>status = Processing, finalAnswer = [], userAnalyser = True, aiAnalyser = False,
       socket = Some OPEN, audioContext = True, userSourceNode = True,
       userWorkletNode = True, mediaStream = Some \<lparr>active = True, enabled = False\<rparr>,
       ttsWorkletNode = None, sttLocked = True, ttsPlaying = False, effects = []\<rparr>"
  by (simp add: initial_def step_def toggleSession_def startSession_def setupWebSocket_def
      socket_onopen_def startListening_def socket_open_def socket_onmessage_def
      stopListening_def)

lemma run_snoc: "run (evs @ [ev]) s = step ev (run evs s)"
  by (induction evs arbitrary: s) simp_all

text \<open>
  The user's stop, an \<^verbatim>\<open>error\<close> message and a transport error all run \<^verbatim>\<open>stopSession\<close>.
\<close>

lemma teardown_triggers:
  "status s \<noteq> Idle \<Longrightarrow> step Toggle s = stopSession s"
  "socket_open s \<Longrightarrow> step (WsMessage (Error m)) s = stopSession s"
  "step WsError s = stopSession s"
  by (simp_all add: step_def toggleSession_def socket_onmessage_def socket_onerror_def)

text \<open>
  Claim C1 at the run: start, connection opens, \<^verbatim>\<open>stt_end\<close> arrives, the server closes
  the connection. \<^verbatim>\<open>onclose\<close> sets the status to \<open>Idle\<close> and nothing else, so the lock
  that \<^verbatim>\<open>stt_end\<close> set stays: the session is idle with the capture lock set.
\<close>

theorem lock_survives_close:
  "status (run [Toggle, WsOpen True, WsMessage SttEnd, WsClose] initial) = Idle \<and>
   sttLocked (run [Toggle, WsOpen True, WsMessage SttEnd, WsClose] initial)"
  using run_snoc [of "[Toggle, WsOpen True, WsMessage SttEnd]" WsClose initial]
  by (simp add: run_processing step_def socket_onclose_def del: run.simps)

lemma lock_inv_fails_after_close:
  "lock_inv_strong (run [Toggle, WsOpen True, WsMessage SttEnd] initial) \<and>
   \<not> lock_inv (run [Toggle, WsOpen True, WsMessage SttEnd, WsClose] initial)"
  using run_snoc [of "[Toggle, WsOpen True, WsMessage SttEnd]" WsClose initial]
  by (simp add: run_processing step_def socket_onclose_def lock_inv_def lock_inv_strong_def
      del: run.simps)

text \<open>
  A speech chunk whose payload is not base64 leaves the session listening with the lock
  set: the handler locks, then \<^verbatim>\<open>atob\<close> throws before the status changes.
\<close>

lemma lock_inv_fails_after_bad_chunk:
  "atob ''!'' = None \<and>
   status (run [Toggle, WsOpen True, WsMessage (TtsChunk ''!'')] initial) = Listening \<and>
   sttLocked (run [Toggle, WsOpen True, WsMessage (TtsChunk ''!'')] initial)"
proof -
  have a: "atob ''!'' = None" by code_simp
  show ?thesis
    by (simp add: a initial_def step_def toggleSession_def startSession_def
        setupWebSocket_def socket_onopen_def startListening_def socket_open_def
        socket_onmessage_def stopListening_def initTtsPlayer_def pushTtsChunkBase64_def)
qed

text \<open>
  Claim C7 at the same run. The close handler changes the status only; it is not
  \<^verbatim>\<open>stopSession\<close>. The socket, the microphone stream, the source node and the capture
  node are still held and nothing has been released; since the status is \<open>Idle\<close>, a
  later \<^verbatim>\<open>stopSession\<close> returns at once and releases nothing either. A new session then
  stays in \<open>Connecting\<close> when its connection opens, because \<^verbatim>\<open>startListening\<close> finds the
  stale lock.
\<close>

theorem close_skips_teardown:
  "step WsClose (run [Toggle, WsOpen True, WsMessage SttEnd] initial) =
     (run [Toggle, WsOpen True, WsMessage SttEnd] initial)
       \<lparr>socket := Some CLOSED, status := Idle\<rparr> \<and>
   step WsClose (run [Toggle, WsOpen True, WsMessage SttEnd] initial) \<noteq>
     stopSession (run [Toggle, WsOpen True, WsMessage SttEnd] initial) \<and>
   released (step WsClose (run [Toggle, WsOpen True, WsMessage SttEnd] initial)) =
     [SocketClose, TrackStop, SourceDisconnect, CaptureDisconnect] \<and>
   effects (step WsClose (run [Toggle, WsOpen True, WsMessage SttEnd] initial)) = [] \<and>
   stopSession (step WsClose (run [Toggle, WsOpen True, WsMessage SttEnd] initial)) =
     step WsClose (run [Toggle, WsOpen True, WsMessage SttEnd] initial) \<and>
   status (run [Toggle, WsOpen True, WsMessage SttEnd, WsClose, Toggle, WsOpen True] initial) =
     Connecting"
proof -
  have r: "run [Toggle, WsOpen True, WsMessage SttEnd, WsClose, Toggle, WsOpen True] initial =
      step (WsOpen True) (step Toggle (step WsClose
        (run [Toggle, WsOpen True, WsMessage SttEnd] initial)))"
    using run_snoc [of "[Toggle, WsOpen True, WsMessage SttEnd, WsClose, Toggle]" "WsOpen True" initial]
      run_snoc [of "[Toggle, WsOpen True, WsMessage SttEnd, WsClose]" Toggle initial]
      run_snoc [of "[Toggle, WsOpen True, WsMessage SttEnd]" WsClose initial]
    by (simp del: run.simps)
  show ?thesis
    unfolding r run_processing
    by (simp add: step_def socket_onclose_def stopSession_def stopListening_def released_def
        toggleSession_def startSession_def setupWebSocket_def socket_onopen_def
        startListening_def)
qed

section \<open>The wire format\<close>

text \<open>Three bytes and their four sextets, as arithmetic on numbers below 256.\<close>

lemma div_mult_add: "y < n \<Longrightarrow> (x * n + y) div n = (x :: nat)"
  by simp

lemma mod_mult_add: "y < n \<Longrightarrow> (x * n + y) mod n = (y :: nat)"
  by simp

lemma sextet_arith:
  fixes a b c :: nat
  assumes "b < 256" "c < 256"
  shows "a div 4 * 4 + (a mod 4 * 16 + b div 16) div 16 = a"
    and "(a mod 4 * 16 + b div 16) mod 16 * 16 + (b mod 16 * 4 + c div 64) div 4 = b"
    and "(b mod 16 * 4 + c div 64) mod 4 * 64 + c mod 64 = c"
    and "a div 4 * 4 + a mod 4 * 16 div 16 = a"
    and "(a mod 4 * 16 + b div 16) mod 16 * 16 + b mod 16 * 4 div 4 = b"
proof -
  have b16: "b div 16 < 16" using assms(1) by (simp add: less_mult_imp_div_less)
  have c64: "c div 64 < 4" using assms(2) by (simp add: less_mult_imp_div_less)
  show "a div 4 * 4 + (a mod 4 * 16 + b div 16) div 16 = a"
    using b16 by simp
  show "(a mod 4 * 16 + b div 16) mod 16 * 16 + (b mod 16 * 4 + c div 64) div 4 = b"
    using b16 c64 by simp
  show "(b mod 16 * 4 + c div 64) mod 4 * 64 + c mod 64 = c"
    using c64 by simp
  show "a div 4 * 4 + a mod 4 * 16 div 16 = a"
    by simp
  show "(a mod 4 * 16 + b div 16) mod 16 * 16 + b mod 16 * 4 div 4 = b"
    using b16 by simp
qed

lemma sextet_bounds:
  fixes a b c :: nat
  assumes "a < 256" "b < 256" "c < 256"
  shows "a div 4 < 64" "a mod 4 * 16 + b div 16 < 64" "b mod 16 * 4 + c div 64 < 64"
    "c mod 64 < 64" "a mod 4 * 16 < 64" "b mod 16 * 4 < 64"
proof -
  have b16: "b div 16 < 16" using assms(2) by (simp add: less_mult_imp_div_less)
  have c64: "c div 64 < 4" using assms(3) by (simp add: less_mult_imp_div_less)
  have a4: "a mod 4 < 4" "b mod 16 < 16" by simp_all
  show "a div 4 < 64" using assms(1) by (simp add: less_mult_imp_div_less)
  show "a mod 4 * 16 + b div 16 < 64" using a4(1) b16 by linarith
  show "b mod 16 * 4 + c div 64 < 64" using a4(2) c64 by linarith
  show "c mod 64 < 64" by simp
  show "a mod 4 * 16 < 64" using a4(1) by linarith
  show "b mod 16 * 4 < 64" using a4(2) by linarith
qed

lemma byte_bound: "unat (a :: byte) < 256"
  using unsigned_less [of a, where ?'a = nat] by simp

lemma b64chars_length: "length b64chars = 64"
  by (simp add: b64chars_def)

lemma b64chars_distinct: "distinct b64chars"
  by (simp add: b64chars_def)

lemma pad_not_b64: "CHR ''='' \<notin> set b64chars"
  by (simp add: b64chars_def)

lemma b64chars_no_space: "c \<in> set b64chars \<Longrightarrow> \<not> ascii_whitespace c"
proof -
  have "list_all (\<lambda>c. \<not> ascii_whitespace c) b64chars" by code_simp
  then show "c \<in> set b64chars \<Longrightarrow> \<not> ascii_whitespace c"
    by (simp add: list_all_iff)
qed

lemma pad_no_space: "\<not> ascii_whitespace (CHR ''='')"
  by (simp add: ascii_whitespace_def)

lemma position_nth:
  "distinct xs \<Longrightarrow> i < length xs \<Longrightarrow> position (xs ! i) xs = Some i"
proof (induction xs arbitrary: i)
  case Nil
  then show ?case by simp
next
  case (Cons x xs)
  show ?case
  proof (cases i)
    case 0
    then show ?thesis by simp
  next
    case (Suc j)
    with Cons.prems have "xs ! j \<in> set xs" "x \<notin> set xs" by simp_all
    then have "x \<noteq> xs ! j" by auto
    with Cons Suc show ?thesis by simp
  qed
qed

lemma b64index_b64chars: "i < 64 \<Longrightarrow> b64index (b64chars ! i) = Some i"
  unfolding b64index_def by (rule position_nth) (simp_all add: b64chars_distinct b64chars_length)

lemma sextets_bound: "x \<in> set (sextets bin) \<Longrightarrow> x < 64"
proof (induction bin arbitrary: x rule: sextets.induct)
  case 1
  then show ?case by simp
next
  case (2 a)
  then show ?case
    using sextet_bounds [OF byte_bound [of a] byte_bound [of a] byte_bound [of a]] by auto
next
  case (3 a b)
  then show ?case
    using sextet_bounds [OF byte_bound [of a] byte_bound [of b] byte_bound [of b]] by auto
next
  case (4 a b c rest)
  then show ?case
    using sextet_bounds [OF byte_bound [of a] byte_bound [of b] byte_bound [of c]] by auto
qed

lemma octets_sextets: "octets (sextets bin) = bin"
proof (induction bin rule: sextets.induct)
  case 1
  then show ?case by simp
next
  case (2 a)
  show ?case
    using sextet_arith(4) [OF byte_bound [of a] byte_bound [of a]] by simp
next
  case (3 a b)
  show ?case
    using sextet_arith(1,5) [OF byte_bound [of b] byte_bound [of b]] by simp
next
  case (4 a b c rest)
  show ?case
    using 4 sextet_arith(1,2,3) [OF byte_bound [of b] byte_bound [of c]] by simp
qed

text \<open>
  The two bytes of a 16-bit sample, recombined as \<^verbatim>\<open>(hi << 8) | lo\<close> and stored into an
  \<^verbatim>\<open>Int16Array\<close>, are the sample again, whatever its sign.
\<close>

lemma int16_bytes_roundtrip:
  "word_of_int (push_bit 8 (uint (ucast (drop_bit 8 w) :: byte)) OR uint (ucast w :: byte)) = (w :: int16)"
  apply (rule bit_word_eqI)
  apply (auto simp add: bit_simps)
  done

lemma int16_of_binary_arrayBuffer: "int16_of_binary (arrayBuffer ws) = ws"
  by (induction ws) (simp_all add: arrayBuffer_def int16_bytes_def int16_bytes_roundtrip)

lemma those_map_Some:
  "(\<And>x. x \<in> set xs \<Longrightarrow> f (g x) = Some x) \<Longrightarrow> those (map f (map g xs)) = Some xs"
  by (induction xs) simp_all

lemma pad_step: "(3 - (n + 3) mod 3) mod 3 = (3 - n mod 3) mod (3 :: nat)"
  by simp

lemma btoa_length: "(length (sextets bin) + (3 - length bin mod 3) mod 3) mod 4 = 0"
proof (induction bin rule: sextets.induct)
  case (4 a b c rest)
  have l: "length (a # b # c # rest) = length rest + 3" by simp
  show ?case using 4 unfolding l pad_step by simp
qed simp_all

lemma sextets_length_mod: "length (sextets bin) mod 4 \<noteq> 1"
  by (induction bin rule: sextets.induct) simp_all

lemma drop_in_set: "drop n xs = c # rest \<Longrightarrow> c \<in> set xs"
  by (metis in_set_dropD list.set_intros(1))

lemma strip_padding_pad:
  assumes c: "CHR ''='' \<notin> set body" and k: "k \<le> 2"
    and len: "(length body + k) mod 4 = 0"
  shows "strip_padding (body @ replicate k (CHR ''='')) = body"
proof -
  consider "k = 0" | "k = 1" | "k = 2" using k by linarith
  then show ?thesis
  proof cases
    case 1
    have a: "drop (length body - 2) body \<noteq> ''==''"
      using c drop_in_set [of "length body - 2" body] by auto
    have b: "drop (length body - 1) body \<noteq> ''=''"
      using c drop_in_set [of "length body - 1" body] by auto
    show ?thesis using 1 a b by (simp add: strip_padding_def)
  next
    case 2
    have a: "drop (length body - 1) body @ ''='' \<noteq> ''==''"
      using c drop_in_set [of "length body - 1" body] by auto
    show ?thesis using 2 a len by (simp add: strip_padding_def)
  next
    case 3
    show ?thesis using 3 len by (simp add: strip_padding_def numeral_2_eq_2)
  qed
qed

lemma body_chars: "set (map (\<lambda>i. b64chars ! i) (sextets bin)) \<subseteq> set b64chars"
  using sextets_bound [of _ bin] by (auto simp add: b64chars_length)

lemma btoa_no_space: "filter (\<lambda>c. \<not> ascii_whitespace c) (btoa bin) = btoa bin"
proof -
  have "\<not> ascii_whitespace c" if "c \<in> set (btoa bin)" for c
    using that body_chars [of bin] b64chars_no_space pad_no_space
    by (auto simp add: btoa_def)
  then show ?thesis by (simp add: filter_id_conv)
qed

lemma strip_padding_btoa:
  "strip_padding (btoa bin) = map (\<lambda>i. b64chars ! i) (sextets bin)"
proof -
  have "CHR ''='' \<notin> set (map (\<lambda>i. b64chars ! i) (sextets bin))"
    using body_chars [of bin] pad_not_b64 by blast
  moreover have "(3 - length bin mod 3) mod 3 \<le> 2" by simp
  moreover have "(length (map (\<lambda>i. b64chars ! i) (sextets bin)) +
      (3 - length bin mod 3) mod 3) mod 4 = 0"
    using btoa_length [of bin] by simp
  ultimately show ?thesis unfolding btoa_def by (rule strip_padding_pad)
qed

text \<open>The forgiving decoder inverts \<^verbatim>\<open>btoa\<close> on every binary string.\<close>

lemma atob_btoa: "atob (btoa bin) = Some bin"
proof -
  have idx: "those (map b64index (map (\<lambda>i. b64chars ! i) (sextets bin))) = Some (sextets bin)"
    by (rule those_map_Some) (simp add: b64index_b64chars sextets_bound)
  show ?thesis
    unfolding atob_def btoa_no_space strip_padding_btoa Let_def idx
    using sextets_length_mod [of bin] by (simp add: octets_sextets)
qed

text \<open>
  Claim C6. For every buffer of 16-bit samples, the text that the capture path sends
  for it, \<^verbatim>\<open>btoa\<close> of its little-endian bytes, decodes through \<^verbatim>\<open>atob\<close> and the byte-pair
  loop to the same samples; \<^verbatim>\<open>pushTtsChunkBase64\<close> given that text posts exactly these
  samples to the playback node.
\<close>

theorem wire_roundtrip:
  "map_option int16_of_binary (atob (btoa (arrayBuffer i16))) = Some i16 \<and>
   (\<not> sttLocked s \<and> socket s = Some OPEN \<longrightarrow>
      effects (userWorkletNode_onmessage (arrayBuffer i16) s) =
        effects s @ [SocketSend (btoa (arrayBuffer i16))]) \<and>
   (ttsWorkletNode s = Some port \<longrightarrow>
      (\<exists>s'. pushTtsChunkBase64 (btoa (arrayBuffer i16)) s = Some s' \<and>
            ttsWorkletNode s' = Some (port @ [Chunk i16])))"
  by (simp add: atob_btoa int16_of_binary_arrayBuffer userWorkletNode_onmessage_def
      pushTtsChunkBase64_def Let_def)

theorem wire_roundtrip_witness:
  "btoa (arrayBuffer [- 1, 5, - 32768, 32767]) = ''//8FAACA/38='' \<and>
   map_option (map sint \<circ> int16_of_binary) (atob ''//8FAACA/38='') =
     Some [- 1, 5, - 32768, 32767] \<and>
   effects (userWorkletNode_onmessage (arrayBuffer [- 1, 5, - 32768, 32767])
      (initial\<lparr>socket := Some OPEN, ttsWorkletNode := Some []\<rparr>)) =
     [SocketSend ''//8FAACA/38=''] \<and>
   (\<exists>s'. pushTtsChunkBase64 ''//8FAACA/38=''
           (initial\<lparr>socket := Some OPEN, ttsWorkletNode := Some []\<rparr>) = Some s' \<and>
         ttsWorkletNode s' = Some [Chunk [- 1, 5, - 32768, 32767]])"
proof -
  have t: "btoa (arrayBuffer [- 1, 5, - 32768, 32767]) = ''//8FAACA/38=''" by code_simp
  have n: "ttsWorkletNode (initial\<lparr>socket := Some OPEN, ttsWorkletNode := Some []\<rparr>) = Some []"
    "socket (initial\<lparr>socket := Some OPEN, ttsWorkletNode := Some []\<rparr>) = Some OPEN"
    "\<not> sttLocked (initial\<lparr>socket := Some OPEN, ttsWorkletNode := Some []\<rparr>)"
    "effects (initial\<lparr>socket := Some OPEN, ttsWorkletNode := Some []\<rparr>) = []"
    by (simp_all add: initial_def)
  have i: "\<not> sttLocked initial" "effects initial = []" by (simp_all add: initial_def)
  show ?thesis
    using wire_roundtrip [of "[- 1, 5, - 32768, 32767]"
        "initial\<lparr>socket := Some OPEN, ttsWorkletNode := Some []\<rparr>" "[]"]
    unfolding t n by (auto simp add: i map_option_case split: option.splits)
qed

end
